theory Spec2Isabelle
  imports Complex_Main "HOL-Library.Product_Lexorder"
begin

section \<open>Surface-based voxel selection (mvpa2/misc/surfing/surf_voxel_selection.py)\<close>

text \<open>
  Conventions of the embedding.
  \<^item> Python \<open>int\<close> is \<open>int\<close>; list positions are \<open>nat\<close> and are converted with \<open>int\<close>
    where the source computes with them.
  \<^item> A Python \<open>float\<close> is the \<open>real\<close> it stands for, a binary64 number; a sum or a
    product is rounded to the nearest binary64 number, and an entry of a NumPy
    \<open>float32\<close> array to the nearest binary32 number. Infinities and NaN are no
    \<open>real\<close>: a result beyond the largest finite number of its format, where the
    machine gives \<open>inf\<close>, is outside the model.
  \<^item> A \<open>dict\<close> that the functions receive is an association list in the order in which
    the dict is iterated.
  \<^item> An exception is a value \<open>Inl e\<close> of a sum type.
\<close>

subsection \<open>Data\<close>

type_synonym node = int
type_synonym voxel = int

text \<open>
  The dict built by \<open>nodes2voxel_attributes\<close>: it always has the three keys
  \<open>LINEAR_VOXEL_INDICES\<close>, \<open>CENTER_DISTANCES\<close> and \<open>GREY_MATTER_POSITION\<close>, each bound
  to an array.
\<close>

record voxprops =
  linear_voxel_indices :: "voxel list"
  center_distances :: "real list"
  grey_matter_position :: "real list"

datatype error =
    TypeError string
  | ValueError string
  | IndexError string
  | AttributeError string
  | ImportError string

subsection \<open>Floating point arithmetic\<close>

text \<open>\<open>pow2 e\<close> is \<open>2\<close> to the power \<open>e\<close>, for any integer \<open>e\<close>.\<close>

definition pow2 :: "int \<Rightarrow> real" where
  "pow2 e = (if 0 \<le> e then 2 ^ nat e else 1 / 2 ^ nat (- e))"

text \<open>The integer nearest to \<open>y\<close>; of two nearest integers, the even one.\<close>

definition round_half_even :: "real \<Rightarrow> int" where
  "round_half_even y =
     (let n = \<lfloor>y\<rfloor>; r = y - of_int n
      in if r < 1 / 2 then n else if 1 / 2 < r then n + 1 else if even n then n else n + 1)"

text \<open>
  Rounding to nearest, ties to even, in a binary format with \<open>p\<close> significant bits
  and least exponent \<open>emin\<close>: the numbers of the format around \<open>x\<close> are the multiples
  of \<open>2\<close> to the power \<open>e - (p - 1)\<close>, where \<open>e\<close> is the exponent of \<open>x\<close>, or \<open>emin\<close> for a
  subnormal \<open>x\<close>.
\<close>

definition round_to :: "nat \<Rightarrow> int \<Rightarrow> real \<Rightarrow> real" where
  "round_to p emin x =
     (if x = 0 then 0
      else (let e = max \<lfloor>log 2 \<bar>x\<bar>\<rfloor> emin - (int p - 1)
            in pow2 e * of_int (round_half_even (x / pow2 e))))"

text \<open>binary64, the Python \<open>float\<close>, and binary32, the NumPy \<open>float32\<close>.\<close>

definition round64 :: "real \<Rightarrow> real" where
  "round64 = round_to 53 (- 1022)"

definition round32 :: "real \<Rightarrow> real" where
  "round32 = round_to 24 (- 126)"

text \<open>\<open>a + b\<close> and \<open>a * b\<close> on Python floats, and \<open>float(i)\<close> of a Python \<open>int\<close>.\<close>

definition fadd :: "real \<Rightarrow> real \<Rightarrow> real" where
  "fadd a b = round64 (a + b)"

definition fmul :: "real \<Rightarrow> real \<Rightarrow> real" where
  "fmul a b = round64 (a * b)"

definition float_of_int :: "int \<Rightarrow> real" where
  "float_of_int i = round64 (of_int i)"

text \<open>
  \<open>sys.maxint\<close> of a build with a 64-bit C \<open>long\<close>: an integer beyond it has the type
  \<open>long\<close>, not \<open>int\<close>.
\<close>

definition sys_maxint :: int where
  "sys_maxint = 2 ^ 63 - 1"

text \<open>
  What the run takes from the interpreter and its libraries:
  \<^item> \<open>dict_order\<close>, the rank of the hash table slot of each key of the dict \<open>v2dps\<close>
    (see \<open>iteritems\<close> below);
  \<^item> \<open>np_int32\<close>, the entry that \<open>np.asarray(..., dtype=np.int32)\<close> stores for a Python
    integer;
  \<^item> \<open>c_pow\<close>, the function \<open>pow\<close> of the C library, which \<open>x ** y\<close> calls on floats.
\<close>

record Runtime =
  dict_order :: "int \<Rightarrow> nat"
  np_int32 :: "int \<Rightarrow> int"
  c_pow :: "real \<Rightarrow> real \<Rightarrow> real"

subsection \<open>\<open>VoxelSelector._select_approx\<close>\<close>

text \<open>
  The scanning loop \<open>for i in xrange(n)\<close> of \<open>_select_approx\<close>. The first argument is
  \<open>allds[i:]\<close>; the loop variables \<open>prevd\<close>, \<open>curchunk\<close> and \<open>chunkcount\<close> are passed
  along, and \<open>break\<close> returns them as they are.
\<close>

fun scan_chunks :: "real list \<Rightarrow> int \<Rightarrow> nat \<Rightarrow> real \<Rightarrow> nat list \<Rightarrow> nat \<Rightarrow> nat list \<times> nat" where
  "scan_chunks [] count i prevd curchunk chunkcount = (curchunk, chunkcount)"
| "scan_chunks (d # ds) count i prevd curchunk chunkcount =
     (if i > 0 \<and> prevd \<noteq> d then
        (if int i \<ge> count then (curchunk, chunkcount)
         else scan_chunks ds count (Suc i) d [i] (chunkcount + 1))
      else scan_chunks ds count (Suc i) d (curchunk @ [i]) chunkcount)"

text \<open>
  The values computed after the loop, for a non-empty \<open>allds\<close> with at least \<open>count\<close>
  entries: \<open>firstpos\<close>, \<open>lastpos\<close>, \<open>delta\<close>, \<open>chunkcount\<close> and \<open>cutpos\<close>.
\<close>

record cut =
  firstpos :: nat
  lastpos :: nat
  delta :: int
  chunks :: nat
  cutpos :: nat

definition find_cut :: "real list \<Rightarrow> int \<Rightarrow> cut" where
  "find_cut allds count =
     (let (curchunk, chunkcount) = scan_chunks allds count 0 (allds ! 0) [] 1;
          firstpos = hd curchunk;
          lastpos = last curchunk;
          delta = (count - int firstpos) - (int lastpos - count)
      in \<lparr> firstpos = firstpos, lastpos = lastpos, delta = delta, chunks = chunkcount,
           cutpos = (if delta > 0 then lastpos + 1
                     else if delta < 0 then firstpos
                     else if chunkcount mod 2 = 0 then firstpos else lastpos + 1) \<rparr>)"

text \<open>\<open>voxprops[k] = voxprops[k][:cutpos]\<close> for every key \<open>k\<close>.\<close>

definition truncate_to :: "nat \<Rightarrow> voxprops \<Rightarrow> voxprops" where
  "truncate_to c vp =
     \<lparr> linear_voxel_indices = take c (linear_voxel_indices vp),
       center_distances = take c (center_distances vp),
       grey_matter_position = take c (grey_matter_position vp) \<rparr>"

text \<open>
  \<open>_select_approx(voxprops, count)\<close>: \<open>None\<close> is the source's \<open>None\<close> (not enough
  voxels). The \<open>KeyError\<close> branch needs a dict without the distance key, which the
  record excludes.
\<close>

definition select_approx :: "voxprops \<Rightarrow> int option \<Rightarrow> voxprops option" where
  "select_approx vp count =
     (case count of
        None \<Rightarrow> Some vp
      | Some c \<Rightarrow>
          (let allds = center_distances vp; n = length allds
           in if int n < c \<or> n = 0 then None
              else Some (truncate_to (cutpos (find_cut allds c)) vp)))"

subsection \<open>\<open>VoxelSelector.nodes2voxel_attributes\<close>\<close>

text \<open>
  The arguments: \<open>n2d\<close> maps a node to its distance from the centre, \<open>n2v\<close> maps a node
  to \<open>None\<close> or to a dict from voxel index to grey matter position. A node that is
  not a key of \<open>n2v\<close> has no entry in the list.
\<close>

type_synonym n2d = "(node \<times> real) list"
type_synonym v2p = "(voxel \<times> real) list"
type_synonym n2v = "(node \<times> v2p option) list"

text \<open>
  \<open>v2dps = collections.defaultdict(set)\<close>: a set of \<open>(d, pos)\<close> tuples for each voxel.
  A set is a list without repetition; a new key goes to the end of the list.
\<close>

type_synonym v2dps = "(voxel \<times> (real \<times> real) list) list"

text \<open>\<open>v2dps[vx].add((d, pos))\<close>\<close>

fun add_dp :: "voxel \<Rightarrow> real \<times> real \<Rightarrow> v2dps \<Rightarrow> v2dps" where
  "add_dp vx dp [] = [(vx, [dp])]"
| "add_dp vx dp ((k, s) # m) =
     (if k = vx then (k, List.insert dp s) # m else (k, s) # add_dp vx dp m)"

text \<open>The body of \<open>for nd, d in n2d.iteritems()\<close>.\<close>

definition collect_node :: "n2v \<Rightarrow> node \<times> real \<Rightarrow> v2dps \<Rightarrow> v2dps" where
  "collect_node tbl = (\<lambda>(nd, d) m.
     (case map_of tbl nd of
        None \<Rightarrow> m
      | Some None \<Rightarrow> m
      | Some (Some vps) \<Rightarrow> fold (\<lambda>(vx, pos). add_dp vx (d, pos)) vps m))"

definition collect :: "n2d \<Rightarrow> n2v \<Rightarrow> v2dps" where
  "collect around tbl = fold (collect_node tbl) around []"

text \<open>
  CPython 2 iterates a dict in the order of the slots of its hash table, which is not
  the order of insertion. The order in which \<open>v2dps.iteritems()\<close> yields the voxels is
  a parameter: \<open>slot vx\<close> is the rank of the slot of key \<open>vx\<close>.
\<close>

definition iteritems :: "(voxel \<Rightarrow> nat) \<Rightarrow> v2dps \<Rightarrow> v2dps" where
  "iteritems slot m = sort_key (\<lambda>kv. slot (fst kv)) m"

text \<open>
  \<open>unpack_dp\<close> with \<open>distancesummary=min\<close>: Python compares tuples lexicographically,
  which is the order of pairs of \<open>Product_Lexorder\<close>. Every set of \<open>v2dps\<close> has an
  element, so \<open>min\<close> is never called on an empty set.
\<close>

definition unpack_dp :: "voxel \<times> (real \<times> real) list \<Rightarrow> voxel \<times> real \<times> real" where
  "unpack_dp = (\<lambda>(vx, dp). (let (d, p) = min_list dp in (vx, d, p)))"

text \<open>
  The triples are sorted by the distance as it is, and the three columns are then
  stored by \<open>np.asarray\<close> with the types \<open>int32\<close>, \<open>float32\<close> and \<open>float32\<close>.
\<close>

definition nodes2voxel_attributes :: "'a Runtime_scheme \<Rightarrow> n2d \<Rightarrow> n2v \<Rightarrow> voxprops" where
  "nodes2voxel_attributes rt around tbl =
     (let v2dps = collect around tbl;
          vdp = map unpack_dp (iteritems (dict_order rt) v2dps);
          vdp = sort_key (\<lambda>(vx, d, p). d) vdp
      in \<lparr> linear_voxel_indices = map (\<lambda>(vx, d, p). np_int32 rt vx) vdp,
           center_distances = map (\<lambda>(vx, d, p). round32 d) vdp,
           grey_matter_position = map (\<lambda>(vx, d, p). round32 p) vdp \<rparr>)"

subsection \<open>\<open>_RadiusOptimizer\<close>\<close>

text \<open>
  \<open>_curradius\<close> and \<open>_count\<close> do not exist before the first \<open>get_start\<close>: the fields
  are \<open>None\<close> until then, and \<open>get_next\<close> raises \<open>AttributeError\<close> on them.
\<close>

record RadiusOptimizer =
  initradius :: real
  initmult :: real
  curradius :: "real option"
  count :: "int option"

definition RadiusOptimizer_init :: "real \<Rightarrow> RadiusOptimizer" where
  "RadiusOptimizer_init r =
     \<lparr> initradius = r, initmult = 1.5, curradius = None, count = None \<rparr>"

definition get_start :: "RadiusOptimizer \<Rightarrow> real \<times> RadiusOptimizer" where
  "get_start opt =
     (initradius opt, opt\<lparr> curradius := Some (initradius opt), count := Some 0 \<rparr>)"

definition get_next :: "RadiusOptimizer \<Rightarrow> error + real \<times> RadiusOptimizer" where
  "get_next opt =
     (case count opt of
        None \<Rightarrow> Inl (AttributeError ''_count'')
      | Some n \<Rightarrow>
          (case curradius opt of
             None \<Rightarrow> Inl (AttributeError ''_curradius'')
           | Some r \<Rightarrow>
               Inr (fmul r (initmult opt),
                    opt\<lparr> count := Some (n + 1),
                         curradius := Some (fmul r (initmult opt)) \<rparr>)))"

definition set_final :: "RadiusOptimizer \<Rightarrow> real \<Rightarrow> RadiusOptimizer" where
  "set_final opt finalradius = opt"

text \<open>Calls on one optimizer, one after the other, stopping at the first exception.\<close>

datatype call = GetStart | GetNext | SetFinal real

fun run_calls :: "call list \<Rightarrow> RadiusOptimizer \<Rightarrow> error + RadiusOptimizer" where
  "run_calls [] opt = Inr opt"
| "run_calls (GetStart # cs) opt = run_calls cs (snd (get_start opt))"
| "run_calls (GetNext # cs) opt =
     (case get_next opt of Inl e \<Rightarrow> Inl e | Inr (r, opt') \<Rightarrow> run_calls cs opt')"
| "run_calls (SetFinal r # cs) opt = run_calls cs (set_final opt r)"

text \<open>\<open>k\<close> calls of \<open>get_next\<close>; the result carries the radius returned last.\<close>

fun get_next_times :: "nat \<Rightarrow> real \<times> RadiusOptimizer \<Rightarrow> error + real \<times> RadiusOptimizer" where
  "get_next_times 0 ro = Inr ro"
| "get_next_times (Suc k) ro =
     (case get_next (snd ro) of Inl e \<Rightarrow> Inl e | Inr ro' \<Rightarrow> get_next_times k ro')"

subsection \<open>\<open>VoxelSelector\<close>\<close>

text \<open>
  The surface is used through two methods only, which the model takes as they are:
  \<open>circlearound_n2d(src, radius, metric)\<close> and \<open>dijkstra_distance(src, maxdistance)\<close>,
  both returning a dict from node to distance.
\<close>

record Surface =
  circlearound_n2d :: "node \<Rightarrow> real \<Rightarrow> string \<Rightarrow> n2d"
  dijkstra_distance :: "node \<Rightarrow> real \<Rightarrow> n2d"

text \<open>The argument \<open>radius\<close> of the constructor, by its Python type.\<close>

datatype radius = IntRadius int | FloatRadius real | OtherRadius

text \<open>
  \<open>_targetradius\<close>, once the constructor has accepted it: a number of voxels or a
  metric radius. \<open>_fixedradius\<close> is set with it in the constructor and never changed,
  so it is read off the target.
\<close>

datatype target = Count int | Metric real

text \<open>
  \<open>outside_node_margin\<close>: \<open>None\<close>, \<open>True\<close>, a finite float, or an infinite float
  (\<open>math.isinf\<close>).
\<close>

datatype margin = MarginNone | MarginTrue | MarginFloat real | MarginInf

record VoxelSelector =
  targetradius :: target
  initradius_mm :: real
  optimizer :: RadiusOptimizer
  distance_metric :: string
  surf :: Surface
  n2v :: n2v
  outside_node_margin :: margin

definition fixedradius :: "VoxelSelector \<Rightarrow> bool" where
  "fixedradius sel = (case targetradius sel of Metric r \<Rightarrow> True | Count c \<Rightarrow> False)"

text \<open>
  \<open>VoxelSelector.__init__\<close>. An integer outside the range of \<open>int\<close> is a \<open>long\<close> and is
  rejected with the other types. The initial radius is
  \<open>.001 + 1.5 * float(radius) ** .5\<close> evaluated on floats, \<open>.001\<close> being the float
  nearest to it; in Python 2, \<open>float(radius) ** .5\<close> raises \<open>ValueError\<close> for a
  negative \<open>radius\<close>.
\<close>

definition VoxelSelector_init ::
  "'a Runtime_scheme \<Rightarrow> radius \<Rightarrow> Surface \<Rightarrow> n2v \<Rightarrow> string \<Rightarrow> margin \<Rightarrow>
   error + VoxelSelector" where
  "VoxelSelector_init rt rad sf tbl metric mg =
     (let mk = (\<lambda>tg initradius_mm.
                  \<lparr> targetradius = tg, initradius_mm = initradius_mm,
                    optimizer = RadiusOptimizer_init initradius_mm,
                    distance_metric = metric, surf = sf, n2v = tbl,
                    outside_node_margin = mg \<rparr>)
      in case rad of
           IntRadius c \<Rightarrow>
             (if c < - sys_maxint - 1 \<or> sys_maxint < c
              then Inl (TypeError ''Illegal type for radius: expected int or float'')
              else if c < 0
              then Inl (ValueError ''negative number cannot be raised to a fractional power'')
              else Inr (mk (Count c)
                          (fadd (round64 0.001)
                                (fmul 1.5 (c_pow rt (float_of_int c) 0.5)))))
         | FloatRadius r \<Rightarrow> Inr (mk (Metric r) r)
         | OtherRadius \<Rightarrow> Inl (TypeError ''Illegal type for radius: expected int or float''))"

text \<open>\<open>node_in_vol(nd)\<close>: \<open>nd in n2v and not n2v[nd] is None\<close>.\<close>

definition node_in_vol :: "n2v \<Rightarrow> node \<Rightarrow> bool" where
  "node_in_vol tbl nd = (case map_of tbl nd of Some (Some vps) \<Rightarrow> True | _ \<Rightarrow> False)"

text \<open>
  The value of \<open>skip\<close> where the source tests it, and \<open>False\<close> where the source does not
  enter the outer \<open>if\<close>. Each of the two \<open>for\<close> statements sets \<open>skip = False\<close> at the first
  element that passes the test.
\<close>

definition skip_node :: "VoxelSelector \<Rightarrow> node \<Rightarrow> bool" where
  "skip_node sel src =
     (if \<not> node_in_vol (n2v sel) src \<and> outside_node_margin sel \<noteq> MarginTrue then
        (case outside_node_margin sel of
           MarginNone \<Rightarrow> True
         | MarginInf \<Rightarrow> \<not> list_ex (\<lambda>nd. node_in_vol (n2v sel) nd) (map fst (n2v sel))
         | MarginFloat m \<Rightarrow>
             \<not> list_ex (\<lambda>(nd, d). node_in_vol (n2v sel) nd \<and> d \<le> m)
                         (dijkstra_distance (surf sel) src m)
         | MarginTrue \<Rightarrow> False)
      else False)"

text \<open>
  One pass of the body of the growth loop up to the test \<open>voxel_attributes is None\<close>.
  The assignment \<open>voxel_attributes = []\<close> under \<open>if not allvxdist\<close> is overwritten by
  the statement after it in both modes.
\<close>

definition trial :: "'a Runtime_scheme \<Rightarrow> VoxelSelector \<Rightarrow> node \<Rightarrow> real \<Rightarrow> voxprops option" where
  "trial rt sel src radius_mm =
     (let around_n2d = circlearound_n2d (surf sel) src radius_mm (distance_metric sel);
          allvxdist = nodes2voxel_attributes rt around_n2d (n2v sel)
      in case targetradius sel of
           Metric r \<Rightarrow> select_approx allvxdist None
         | Count c \<Rightarrow> select_approx allvxdist (Some c))"

definition maxiter :: nat where
  "maxiter = 100"

text \<open>
  \<open>for iter in xrange(maxiter)\<close>: the second argument holds the values of \<open>iter\<close> still
  to come; the last argument is the pair of \<open>iter\<close> and \<open>voxel_attributes\<close> as the
  previous pass left them.
\<close>

fun growth_loop ::
  "'a Runtime_scheme \<Rightarrow> VoxelSelector \<Rightarrow> node \<Rightarrow> nat list \<Rightarrow> real \<Rightarrow> RadiusOptimizer \<Rightarrow>
   nat \<times> voxprops option \<Rightarrow> error + (nat \<times> voxprops option) \<times> RadiusOptimizer" where
  "growth_loop rt sel src [] radius_mm opt st = Inr (st, opt)"
| "growth_loop rt sel src (iter # iters) radius_mm opt st =
     (case trial rt sel src radius_mm of
        None \<Rightarrow>
          (case get_next opt of
             Inl e \<Rightarrow> Inl e
           | Inr (radius_mm', opt') \<Rightarrow>
               growth_loop rt sel src iters radius_mm' opt' (iter, None))
      | Some voxel_attributes \<Rightarrow> Inr ((iter, Some voxel_attributes), opt))"

text \<open>What \<open>disc_voxel_attributes\<close> returns: \<open>None\<close>, the list \<open>[]\<close>, or the dict.\<close>

datatype attrs = PyNone | EmptyList | Attrs voxprops

text \<open>
  The part of \<open>disc_voxel_attributes\<close> from \<open>radius_mm = optimizer.get_start()\<close> on.
  \<^item> The argument of \<open>ValueError\<close> is the call \<open>"..." (radius, src)\<close> of a string (there
    is no \<open>%\<close>), so evaluating it raises \<open>TypeError\<close> before \<open>ValueError\<close> is built.
  \<^item> \<open>if voxel_attributes:\<close> is the truth value of a dict, true when it has a key; the
    dict has its three keys whatever the arrays hold. \<open>None\<close> is false.
  \<^item> \<open>voxel_attributes[CENTER_DISTANCES][-1]\<close> raises \<open>IndexError\<close> on an array
    without elements.
\<close>

definition grow_and_select ::
  "'a Runtime_scheme \<Rightarrow> VoxelSelector \<Rightarrow> node \<Rightarrow> error + attrs \<times> VoxelSelector" where
  "grow_and_select rt sel src =
     (let (radius_mm, opt) = get_start (optimizer sel)
      in case growth_loop rt sel src [0..<maxiter] radius_mm opt (0, None) of
           Inl e \<Rightarrow> Inl e
         | Inr ((iter, voxel_attributes), opt') \<Rightarrow>
             (if iter + 1 \<ge> maxiter
              then Inl (TypeError ''str object is not callable'')
              else (case voxel_attributes of
                      None \<Rightarrow> Inr (PyNone, sel\<lparr> optimizer := opt' \<rparr>)
                    | Some va \<Rightarrow>
                        (if center_distances va = []
                         then Inl (IndexError ''index out of bounds'')
                         else Inr (Attrs va,
                                   sel\<lparr> optimizer :=
                                          set_final opt' (last (center_distances va)) \<rparr>)))))"

definition disc_voxel_attributes ::
  "'a Runtime_scheme \<Rightarrow> VoxelSelector \<Rightarrow> node \<Rightarrow> error + attrs \<times> VoxelSelector" where
  "disc_voxel_attributes rt sel src =
     (if skip_node sel src then Inr (EmptyList, sel) else grow_and_select rt sel src)"

text \<open>
  \<open>disc_voxel_indices_and_attributes\<close>: \<open>not attrs\<close> holds for \<open>None\<close> and for \<open>[]\<close>, and
  not for the dict. \<open>attrs.pop\<close> takes the voxel indices out and leaves the other two
  arrays.
\<close>

type_synonym misc_attrs = "real list \<times> real list"

definition disc_voxel_indices_and_attributes ::
  "'a Runtime_scheme \<Rightarrow> VoxelSelector \<Rightarrow> node \<Rightarrow>
   error + (voxel list \<times> misc_attrs) option \<times> VoxelSelector" where
  "disc_voxel_indices_and_attributes rt sel src =
     (case disc_voxel_attributes rt sel src of
        Inl e \<Rightarrow> Inl e
      | Inr (a, sel') \<Rightarrow>
          (case a of
             Attrs va \<Rightarrow>
               Inr (Some (linear_voxel_indices va,
                          (center_distances va, grey_matter_position va)), sel')
           | _ \<Rightarrow> Inr (None, sel')))"

subsection \<open>\<open>voxel_selection\<close>\<close>

type_synonym VolumeMaskDictionary = "(node \<times> voxel list \<times> misc_attrs) list"

text \<open>
  Modelled from the spec: \<open>volume_mask_dict.VolumeMaskDictionary.add\<close> is not in the
  source file. The spec has the result structure map a node to its voxel set, with
  insertion \<open>add(node, voxel_indices, attributes)\<close>.
\<close>

definition vmd_add ::
  "VolumeMaskDictionary \<Rightarrow> node \<Rightarrow> voxel list \<Rightarrow> misc_attrs \<Rightarrow> VolumeMaskDictionary" where
  "vmd_add dict src idxs misc = dict @ [(src, idxs, misc)]"

text \<open>
  Modelled from the spec: \<open>volume_mask_dict.VolumeMaskDictionary.merge\<close> is not in the
  source file. The spec has it join two result structures built from disjoint sets
  of nodes.
\<close>

definition vmd_merge :: "VolumeMaskDictionary \<Rightarrow> VolumeMaskDictionary \<Rightarrow> VolumeMaskDictionary" where
  "vmd_merge dict other = dict @ other"

text \<open>
  \<open>_reduce_mapper\<close>, with \<open>attribute_mapper\<close> the method
  \<open>disc_voxel_indices_and_attributes\<close> of the selector. The messages under
  \<open>__debug__\<close> are left out.
\<close>

fun reduce_mapper ::
  "'a Runtime_scheme \<Rightarrow> VoxelSelector \<Rightarrow> VolumeMaskDictionary \<Rightarrow> (node \<times> node) list \<Rightarrow>
   error + VolumeMaskDictionary \<times> VoxelSelector" where
  "reduce_mapper rt sel node2volume_attributes [] = Inr (node2volume_attributes, sel)"
| "reduce_mapper rt sel node2volume_attributes ((src, trg) # rest) =
     (case disc_voxel_indices_and_attributes rt sel trg of
        Inl e \<Rightarrow> Inl e
      | Inr (None, sel') \<Rightarrow> reduce_mapper rt sel' node2volume_attributes rest
      | Inr (Some (idxs, misc_attrs), sel') \<Rightarrow>
          reduce_mapper rt sel' (vmd_add node2volume_attributes src idxs misc_attrs) rest)"

text \<open>
  What \<open>voxel_selection\<close> takes from outside the file: the intermediate surface and
  the table \<open>vol_surf.node2voxels(...)\<close>, the number of vertices of the source surface,
  the mapping \<open>src2intermediate\<close>, the outcome of \<open>np.random.permutation\<close>, and
  \<open>pprocess\<close> (\<open>None\<close> when the import fails, else the value of
  \<open>get_number_of_cores()\<close>).
\<close>

record Externals =
  intermediate_surface :: Surface
  node2voxels :: n2v
  nvertices :: nat
  src2intermediate :: "node \<Rightarrow> node"
  permutation :: "nat \<Rightarrow> nat list"
  pprocess :: "int option"

text \<open>\<open>np.array_split(xs, p)\<close> for \<open>p > 0\<close>: the first \<open>n mod p\<close> blocks have one more element.\<close>

definition array_split :: "'a list \<Rightarrow> nat \<Rightarrow> 'a list list" where
  "array_split xs p =
     (let n = length xs; q = n div p; r = n mod p
      in map (\<lambda>i. if i < r then take (q + 1) (drop (i * (q + 1)) xs)
                    else take q (drop (r * (q + 1) + (i - r) * q) xs)) [0..<p])"

text \<open>
  The blocks of the branch \<open>nproc > 1\<close>, each reduced from an empty dictionary with
  the selector as it is at the fork; the results come back in the order of the blocks.
\<close>

fun run_blocks ::
  "'a Runtime_scheme \<Rightarrow> VoxelSelector \<Rightarrow> (node \<times> node) list list \<Rightarrow>
   error + VolumeMaskDictionary list" where
  "run_blocks rt sel [] = Inr []"
| "run_blocks rt sel (src_trg # blocks) =
     (case reduce_mapper rt sel [] src_trg of
        Inl e \<Rightarrow> Inl e
      | Inr (result, sel') \<Rightarrow>
          (case run_blocks rt sel blocks of
             Inl e \<Rightarrow> Inl e
           | Inr results \<Rightarrow> Inr (result # results)))"

text \<open>\<open>for i, result in enumerate(results)\<close>: the first result is taken, the others merged.\<close>

fun merge_results ::
  "VolumeMaskDictionary option \<Rightarrow> VolumeMaskDictionary list \<Rightarrow> VolumeMaskDictionary option" where
  "merge_results node2volume_attributes [] = node2volume_attributes"
| "merge_results None (result # results) = merge_results (Some result) results"
| "merge_results (Some d) (result # results) = merge_results (Some (vmd_merge d result)) results"

text \<open>
  \<open>voxel_selection\<close> returns the dictionary (or \<open>None\<close>) and the list of the warnings
  it has issued. The messages under \<open>__debug__\<close> are left out.
\<close>

definition voxel_selection ::
  "'a Runtime_scheme \<Rightarrow> Externals \<Rightarrow> radius \<Rightarrow> node list option \<Rightarrow> string \<Rightarrow> int option \<Rightarrow>
   margin \<Rightarrow> error + VolumeMaskDictionary option \<times> string list" where
  "voxel_selection rt ext rad source_nodes metric nproc_arg mg =
     (let source_surf_nodes =
            (case source_nodes of None \<Rightarrow> map int [0..<nvertices ext] | Some ns \<Rightarrow> ns);
          visitorder = permutation ext (length source_surf_nodes)
      in case VoxelSelector_init rt rad (intermediate_surface ext) (node2voxels ext) metric mg of
           Inl e \<Rightarrow> Inl e
         | Inr voxel_selector \<Rightarrow>
             (let srcs_order = map (\<lambda>i. source_surf_nodes ! i) visitorder;
                  src_trg_nodes = map (\<lambda>src. (src, src2intermediate ext src)) srcs_order;
                  (nproc, warnings) =
                     (case nproc_arg of
                        Some p \<Rightarrow> (p, [])
                      | None \<Rightarrow>
                          (case pprocess ext of
                             Some cores \<Rightarrow> (if cores = 0 then 1 else cores, [])
                           | None \<Rightarrow> (1, [''Could not import pprocess, using nproc=1''])));
                  finish = (\<lambda>node2volume_attributes.
                     Inr (node2volume_attributes,
                          if node2volume_attributes = None
                          then warnings @ [''No voxels associated with any of the nodes'']
                          else warnings))
              in if nproc > 1 then
                   (case pprocess ext of
                      None \<Rightarrow> Inl (ImportError ''No module named pprocess'')
                    | Some cores \<Rightarrow>
                        (case run_blocks rt voxel_selector
                                (array_split src_trg_nodes (nat nproc)) of
                           Inl e \<Rightarrow> Inl e
                         | Inr results \<Rightarrow> finish (merge_results None results)))
                 else
                   (case reduce_mapper rt voxel_selector [] src_trg_nodes of
                      Inl e \<Rightarrow> Inl e
                    | Inr (result, sel') \<Rightarrow> finish (Some result))))"

subsection \<open>Invariants of the scanning loop\<close>

text \<open>
  At position \<open>i\<close> of the scan, \<open>curchunk\<close> is empty before the first pass and is the
  interval of positions from some \<open>f\<close> up to \<open>i\<close> afterwards.
\<close>

definition chunk_inv :: "nat list \<Rightarrow> nat \<Rightarrow> bool" where
  "chunk_inv cur i \<longleftrightarrow> (i = 0 \<and> cur = []) \<or> (\<exists>f<i. cur = [f..<i])"

text \<open>
  With \<open>pre\<close> the distances already scanned: \<open>curchunk\<close> is the run of equal distances
  at the end of \<open>pre\<close>, \<open>prevd\<close> is its distance, and the run starts at \<open>0\<close> or at a
  change of distance before position \<open>count\<close>.
\<close>

definition run_inv :: "int \<Rightarrow> real list \<Rightarrow> real \<Rightarrow> nat list \<Rightarrow> bool" where
  "run_inv c pre p cur \<longleftrightarrow>
     (pre = [] \<and> cur = []) \<or>
     (\<exists>f. f < length pre \<and> cur = [f..<length pre] \<and> p = last pre \<and>
        (\<forall>j. f \<le> j \<and> j < length pre \<longrightarrow> pre ! j = p) \<and>
        (f = 0 \<or> (pre ! (f - 1) \<noteq> pre ! f \<and> int f < c)))"

subsection \<open>The candidates of a voxel\<close>

text \<open>
  The pairs \<open>(distance, position)\<close> that the nodes of \<open>n2d\<close> contribute to the voxel
  \<open>vx\<close>, as the specification describes them: one pair for each node of the distance
  map that has a dict in the table, and each entry of that dict for \<open>vx\<close>.
\<close>

definition candidates :: "n2d \<Rightarrow> n2v \<Rightarrow> voxel \<Rightarrow> (real \<times> real) list" where
  "candidates around tbl vx =
     concat (map (\<lambda>(nd, d).
                    (case map_of tbl nd of
                       Some (Some vps) \<Rightarrow> map (\<lambda>(v, p). (d, p)) (filter (\<lambda>(v, p). v = vx) vps)
                     | _ \<Rightarrow> []))
                 around)"

text \<open>
  For the proofs: the set that \<open>v2dps\<close> holds for a voxel, and the shape of \<open>v2dps\<close>
  (each voxel is a key once, and no set is empty).
\<close>

definition dps :: "v2dps \<Rightarrow> voxel \<Rightarrow> (real \<times> real) set" where
  "dps m vx = (case map_of m vx of None \<Rightarrow> {} | Some s \<Rightarrow> set s)"

definition wf_v2dps :: "v2dps \<Rightarrow> bool" where
  "wf_v2dps m \<longleftrightarrow> distinct (map fst m) \<and> (\<forall>(k, s) \<in> set m. s \<noteq> [])"

subsection \<open>Inputs within the range of the arrays\<close>

text \<open>
  Every distance of the distance map and every position of the table is at most
  \<open>10 ^ 38\<close> in absolute value, so that its nearest binary32 number is finite, and
  every voxel index of the table is a Python \<open>int\<close>, from \<open>-sys.maxint - 1\<close> to
  \<open>sys.maxint\<close>, which NumPy converts to \<open>int32\<close> without an exception.
\<close>

definition array_range :: "n2d \<Rightarrow> n2v \<Rightarrow> bool" where
  "array_range around tbl \<longleftrightarrow>
     list_all (\<lambda>(nd, d). \<bar>d\<bar> \<le> 10 ^ 38) around \<and>
     list_all (\<lambda>(nd, e). case e of None \<Rightarrow> True
                            | Some vps \<Rightarrow>
                                list_all (\<lambda>(vx, p). \<bar>p\<bar> \<le> 10 ^ 38 \<and>
                                            - sys_maxint - 1 \<le> vx \<and> vx \<le> sys_maxint) vps) tbl"

subsection \<open>Inputs for the examples\<close>

text \<open>Six voxels with the distances \<open>1, 1, 2, 2, 2, 3\<close> of the tie-break example.\<close>

definition ex_tie :: voxprops where
  "ex_tie = \<lparr> linear_voxel_indices = [10, 11, 12, 13, 14, 15],
              center_distances = [1, 1, 2, 2, 2, 3],
              grey_matter_position = [0, 0, 0, 0, 0, 0] \<rparr>"

text \<open>
  A runtime for the examples: the dict is iterated by ascending voxel index, an
  integer is stored in \<open>int32\<close> modulo \<open>2 ^ 32\<close>, and \<open>pow\<close> is rounded correctly.
\<close>

definition wrap32 :: "int \<Rightarrow> int" where
  "wrap32 i = (i + 2 ^ 31) mod 2 ^ 32 - 2 ^ 31"

definition cr_pow :: "real \<Rightarrow> real \<Rightarrow> real" where
  "cr_pow x y = round64 (x powr y)"

definition rt_example :: Runtime where
  "rt_example = \<lparr> dict_order = nat, np_int32 = wrap32, c_pow = cr_pow \<rparr>"

text \<open>
  A surface with the two nodes \<open>0\<close> and \<open>1\<close> at distance \<open>D\<close> from each other, a table in
  which node \<open>1\<close> encloses the voxel \<open>7\<close> and node \<open>0\<close> has no entry, and a table in which
  node \<open>0\<close> encloses four voxels.
\<close>

definition surf_two_nodes :: "real \<Rightarrow> Surface" where
  "surf_two_nodes D =
     \<lparr> circlearound_n2d = (\<lambda>src r metric. (src, 0) # (if D \<le> r then [(1 - src, D)] else [])),
       dijkstra_distance = (\<lambda>src m. (src, 0) # (if D \<le> m then [(1 - src, D)] else [])) \<rparr>"

definition tbl_node1 :: n2v where
  "tbl_node1 = [(1, Some [(7, 0.5)])]"

definition tbl_four_voxels :: n2v where
  "tbl_four_voxels = [(0, Some [(7, 0.125), (8, 0.375), (9, 0.625), (10, 0.875)])]"

text \<open>
  The selectors that the constructor builds for the examples: a metric radius \<open>2\<close> with
  a margin of \<open>5\<close>; a count of \<open>5\<close>; a metric radius \<open>2\<close> with the margin \<open>True\<close>; a count
  of \<open>1\<close> over the table with four voxels; a count of \<open>0\<close>; and a count of \<open>1\<close> with node
  \<open>1\<close> at the distance \<open>3 * 10 ^ 17\<close>.
\<close>

definition sel_margin5 :: VoxelSelector where
  "sel_margin5 =
     \<lparr> targetradius = Metric 2, initradius_mm = 2, optimizer = RadiusOptimizer_init 2,
       distance_metric = ''dijkstra'', surf = surf_two_nodes 4, n2v = tbl_node1,
       outside_node_margin = MarginFloat 5 \<rparr>"

definition init_radius :: "'a Runtime_scheme \<Rightarrow> int \<Rightarrow> real" where
  "init_radius rt c = fadd (round64 0.001) (fmul 1.5 (c_pow rt (float_of_int c) 0.5))"

definition sel_count5 :: "'a Runtime_scheme \<Rightarrow> VoxelSelector" where
  "sel_count5 rt =
     \<lparr> targetradius = Count 5, initradius_mm = init_radius rt 5,
       optimizer = RadiusOptimizer_init (init_radius rt 5),
       distance_metric = ''dijkstra'', surf = surf_two_nodes 4, n2v = tbl_node1,
       outside_node_margin = MarginNone \<rparr>"

definition sel_radius2 :: VoxelSelector where
  "sel_radius2 =
     \<lparr> targetradius = Metric 2, initradius_mm = 2, optimizer = RadiusOptimizer_init 2,
       distance_metric = ''dijkstra'', surf = surf_two_nodes 4, n2v = tbl_node1,
       outside_node_margin = MarginTrue \<rparr>"

definition sel_four_voxels :: "'a Runtime_scheme \<Rightarrow> VoxelSelector" where
  "sel_four_voxels rt =
     \<lparr> targetradius = Count 1, initradius_mm = init_radius rt 1,
       optimizer = RadiusOptimizer_init (init_radius rt 1),
       distance_metric = ''dijkstra'', surf = surf_two_nodes 4, n2v = tbl_four_voxels,
       outside_node_margin = MarginNone \<rparr>"

definition sel_count0 :: VoxelSelector where
  "sel_count0 =
     \<lparr> targetradius = Count 0,
       initradius_mm = 1152921504606847 / 1152921504606846976,
       optimizer = RadiusOptimizer_init (1152921504606847 / 1152921504606846976),
       distance_metric = ''dijkstra'', surf = surf_two_nodes 4, n2v = tbl_node1,
       outside_node_margin = MarginNone \<rparr>"

definition sel_far :: VoxelSelector where
  "sel_far =
     \<lparr> targetradius = Count 1,
       initradius_mm = 3379951520341557 / 2251799813685248,
       optimizer = RadiusOptimizer_init (3379951520341557 / 2251799813685248),
       distance_metric = ''dijkstra'', surf = surf_two_nodes (3 * 10 ^ 17), n2v = tbl_node1,
       outside_node_margin = MarginTrue \<rparr>"

text \<open>A run over the two nodes of the surface in which no node encloses a voxel.\<close>

definition ext_no_voxels :: Externals where
  "ext_no_voxels =
     \<lparr> intermediate_surface = surf_two_nodes 4, node2voxels = [], nvertices = 2,
       src2intermediate = (\<lambda>src. src), permutation = (\<lambda>n. rev [0..<n]),
       pprocess = None \<rparr>"

text \<open>
  Three nodes around a centre and the voxels they enclose; the voxels \<open>7\<close> and \<open>9\<close> are
  enclosed by more than one node. All the numbers are binary32 numbers.
\<close>

definition ex_around :: n2d where
  "ex_around = [(0, 2), (1, 4), (2, 1)]"

definition ex_tbl :: n2v where
  "ex_tbl = [(0, Some [(7, 0.5), (8, 0.25)]), (1, Some [(7, 0.125), (9, 0)]),
             (2, Some [(9, 0.75), (7, 0.875)]), (3, None)]"

text \<open>
  One node at distance \<open>0\<close> that encloses the voxel \<open>7\<close> at the position
  \<open>1/2 + 1/2 ^ 30\<close>, which is a binary64 number and no binary32 number.
\<close>

definition ex_fine_around :: n2d where
  "ex_fine_around = [(1, 0)]"

definition ex_fine_tbl :: n2v where
  "ex_fine_tbl = [(1, Some [(7, 1 / 2 + 1 / 2 ^ 30)])]"

section \<open>Properties of \<open>_select_approx\<close>\<close>

subsection \<open>The scanning loop\<close>

lemma chunk_inv_SucD: "chunk_inv cur (Suc i) \<Longrightarrow> \<exists>f<Suc i. cur = [f..<Suc i]"
  unfolding chunk_inv_def by blast

lemma chunk_inv_posD: "chunk_inv cur i \<Longrightarrow> 0 < i \<Longrightarrow> \<exists>f<i. cur = [f..<i]"
  unfolding chunk_inv_def by blast

lemma chunk_inv_new: "chunk_inv [i] (Suc i)"
proof -
  have "[i] = [i..<Suc i]" by simp
  then show ?thesis unfolding chunk_inv_def by blast
qed

lemma chunk_inv_snoc: "chunk_inv cur i \<Longrightarrow> chunk_inv (cur @ [i]) (Suc i)"
proof (cases "i = 0")
  case True
  assume "chunk_inv cur i"
  with True have "cur = [] \<or> (\<exists>f<0. cur = [f..<0])" unfolding chunk_inv_def by blast
  then have "cur = []" by blast
  then have "cur @ [i] = [0..<Suc i]" using True by simp
  then show ?thesis unfolding chunk_inv_def by blast
next
  case False
  assume "chunk_inv cur i"
  with False obtain f where f: "f < i" "cur = [f..<i]" using chunk_inv_posD by blast
  then have "cur @ [i] = [f..<Suc i]" by simp
  moreover have "f < Suc i" using f by simp
  ultimately show ?thesis unfolding chunk_inv_def by blast
qed

lemma scan_chunks_shape:
  "chunk_inv cur i \<Longrightarrow> scan_chunks rest c i p cur cc = (cur', cc') \<Longrightarrow>
   (cur' = cur \<and> cc' = cc) \<or> (\<exists>f e. cur' = [f..<e] \<and> f < e \<and> i < e \<and> e \<le> i + length rest)"
proof (induction rest arbitrary: i p cur cc)
  case Nil
  then show ?case by simp
next
  case (Cons d ds)
  show ?case
  proof (cases "i > 0 \<and> p \<noteq> d")
    case True
    show ?thesis
    proof (cases "int i \<ge> c")
      case True
      with \<open>i > 0 \<and> p \<noteq> d\<close> Cons.prems show ?thesis by simp
    next
      case False
      with True Cons.prems have "scan_chunks ds c (Suc i) d [i] (cc + 1) = (cur', cc')" by simp
      from Cons.IH[OF chunk_inv_new this] have
        "(cur' = [i] \<and> cc' = cc + 1) \<or> (\<exists>f e. cur' = [f..<e] \<and> f < e \<and> Suc i < e \<and> e \<le> Suc i + length ds)" .
      then show ?thesis
      proof
        assume "cur' = [i] \<and> cc' = cc + 1"
        then have "cur' = [i..<Suc i] \<and> i < Suc i \<and> i < Suc i \<and> Suc i \<le> i + length (d # ds)" by simp
        then show ?thesis by blast
      next
        assume "\<exists>f e. cur' = [f..<e] \<and> f < e \<and> Suc i < e \<and> e \<le> Suc i + length ds"
        then obtain f e where fe: "cur' = [f..<e]" "f < e" "Suc i < e" "e \<le> Suc i + length ds" by blast
        then have "i < e" "e \<le> i + length (d # ds)" by simp_all
        with fe(1,2) show ?thesis by blast
      qed
    qed
  next
    case False
    with Cons.prems have *: "scan_chunks ds c (Suc i) d (cur @ [i]) cc = (cur', cc')" by auto
    from Cons.IH[OF chunk_inv_snoc[OF Cons.prems(1)] *] have
      "(cur' = cur @ [i] \<and> cc' = cc) \<or> (\<exists>f e. cur' = [f..<e] \<and> f < e \<and> Suc i < e \<and> e \<le> Suc i + length ds)" .
    then show ?thesis
    proof
      assume a: "cur' = cur @ [i] \<and> cc' = cc"
      from chunk_inv_snoc[OF Cons.prems(1)] obtain f where "f < Suc i" "cur @ [i] = [f..<Suc i]"
        using chunk_inv_SucD by blast
      with a have "cur' = [f..<Suc i] \<and> f < Suc i \<and> i < Suc i \<and> Suc i \<le> i + length (d # ds)" by simp
      then show ?thesis by blast
    next
      assume "\<exists>f e. cur' = [f..<e] \<and> f < e \<and> Suc i < e \<and> e \<le> Suc i + length ds"
      then obtain f e where fe: "cur' = [f..<e]" "f < e" "Suc i < e" "e \<le> Suc i + length ds" by blast
      then have "i < e" "e \<le> i + length (d # ds)" by simp_all
      with fe(1,2) show ?thesis by blast
    qed
  qed
qed

lemma scan_chunks_prefix:
  "chunk_inv cur i \<Longrightarrow> scan_chunks (xs @ ys) c i p cur cc = (cur', cc') \<Longrightarrow> cur' \<noteq> [] \<Longrightarrow>
   Suc (last cur') = i + length xs \<Longrightarrow> c \<le> c' \<Longrightarrow> scan_chunks xs c' i p cur cc = (cur', cc')"
proof (induction xs arbitrary: i p cur cc)
  case Nil
  from scan_chunks_shape[OF Nil.prems(1)] Nil.prems(2)
  have "(cur' = cur \<and> cc' = cc) \<or> (\<exists>f e. cur' = [f..<e] \<and> f < e \<and> i < e \<and> e \<le> i + length ys)"
    by simp
  then show ?case
  proof
    assume "cur' = cur \<and> cc' = cc" then show ?thesis by simp
  next
    assume "\<exists>f e. cur' = [f..<e] \<and> f < e \<and> i < e \<and> e \<le> i + length ys"
    then obtain f e where fe: "cur' = [f..<e]" "f < e" "i < e" by blast
    then have "last cur' = e - 1" by simp
    with fe Nil.prems(4) show ?thesis by simp
  qed
next
  case (Cons x xs)
  show ?case
  proof (cases "i > 0 \<and> p \<noteq> x")
    case True
    show ?thesis
    proof (cases "int i \<ge> c")
      case ge: True
      with True Cons.prems(2) have eq: "cur' = cur" by simp
      from True Cons.prems(1) obtain f where "f < i" "cur = [f..<i]" using chunk_inv_posD by blast
      with eq have "Suc (last cur') = i" by simp
      with Cons.prems(4) show ?thesis by simp
    next
      case False
      with True Cons.prems have "scan_chunks (xs @ ys) c (Suc i) x [i] (cc + 1) = (cur', cc')" by simp
      from Cons.IH[OF chunk_inv_new this] Cons.prems
      have "scan_chunks xs c' (Suc i) x [i] (cc + 1) = (cur', cc')" by simp
      with True False Cons.prems(5) show ?thesis by simp
    qed
  next
    case False
    with Cons.prems have "scan_chunks (xs @ ys) c (Suc i) x (cur @ [i]) cc = (cur', cc')" by auto
    from Cons.IH[OF chunk_inv_snoc[OF Cons.prems(1)] this] Cons.prems
    have "scan_chunks xs c' (Suc i) x (cur @ [i]) cc = (cur', cc')" by simp
    with False show ?thesis by auto
  qed
qed

lemma run_invD:
  assumes "run_inv c pre p cur" and "pre \<noteq> []"
  shows "\<exists>f. f < length pre \<and> cur = [f..<length pre] \<and> p = last pre \<and>
    (\<forall>j. f \<le> j \<and> j < length pre \<longrightarrow> pre ! j = p) \<and>
    (f = 0 \<or> (pre ! (f - 1) \<noteq> pre ! f \<and> int f < c))"
  using assms unfolding run_inv_def by (elim disjE) (simp_all only: simp_thms)

lemma run_inv_NilD: "run_inv c [] p cur \<Longrightarrow> cur = []"
  unfolding run_inv_def by (elim disjE exE conjE) simp_all

lemma run_invI:
  assumes "f < length pre" "cur = [f..<length pre]" "p = last pre"
    "\<forall>j. f \<le> j \<and> j < length pre \<longrightarrow> pre ! j = p"
    "f = 0 \<or> (pre ! (f - 1) \<noteq> pre ! f \<and> int f < c)"
  shows "run_inv c pre p cur"
  unfolding run_inv_def using assms by - (rule disjI2, rule exI[of _ f], intro conjI)

lemma scan_chunks_run:
  assumes "scan_chunks rest c (length pre) p cur cc = (cur', cc')"
    and "pre @ rest \<noteq> []"
    and "run_inv c pre p cur"
  shows "\<exists>f l. cur' = [f..<Suc l] \<and> f \<le> l \<and> l < length (pre @ rest) \<and>
           (\<forall>j. f \<le> j \<and> j \<le> l \<longrightarrow> (pre @ rest) ! j = (pre @ rest) ! l) \<and>
           (f = 0 \<or> ((pre @ rest) ! (f - 1) \<noteq> (pre @ rest) ! f \<and> int f < c)) \<and>
           (Suc l = length (pre @ rest) \<or>
              ((pre @ rest) ! Suc l \<noteq> (pre @ rest) ! l \<and> c \<le> int (Suc l)))"
  using assms
proof (induction rest arbitrary: pre p cur cc)
  case Nil
  from Nil.prems(2) have ne: "pre \<noteq> []" by simp
  from run_invD[OF Nil.prems(3) ne] obtain f where f: "f < length pre" "cur = [f..<length pre]"
    "p = last pre" "\<forall>j. f \<le> j \<and> j < length pre \<longrightarrow> pre ! j = p"
    "f = 0 \<or> (pre ! (f - 1) \<noteq> pre ! f \<and> int f < c)" by (elim exE conjE)
  define l where "l = length pre - 1"
  from f(1) have len: "length pre = Suc l" by (simp add: l_def)
  from f(1) have fl: "f \<le> l" by (simp add: l_def)
  from Nil.prems(1) have "cur' = cur" by simp
  with f(2) have 1: "cur' = [f..<Suc l]" by (simp only: len)
  from f(3) ne have pl: "pre ! l = p" by (simp add: last_conv_nth l_def)
  have 2: "\<forall>j. f \<le> j \<and> j \<le> l \<longrightarrow> (pre @ []) ! j = (pre @ []) ! l"
  proof (intro allI impI)
    fix j assume j: "f \<le> j \<and> j \<le> l"
    then have "f \<le> j \<and> j < length pre" by (simp add: len)
    with f(4) have "pre ! j = p" by blast
    with pl show "(pre @ []) ! j = (pre @ []) ! l" by simp
  qed
  have 3: "l < length (pre @ [])" by (simp add: len)
  have 4: "f = 0 \<or> ((pre @ []) ! (f - 1) \<noteq> (pre @ []) ! f \<and> int f < c)"
    using f(5) by simp
  have 5: "Suc l = length (pre @ []) \<or>
      ((pre @ []) ! Suc l \<noteq> (pre @ []) ! l \<and> c \<le> int (Suc l))" by (simp add: len)
  from 1 fl 3 2 4 5 show ?case by - (rule exI[of _ f], rule exI[of _ l], intro conjI)
next
  case (Cons d ds)
  define i where "i = length pre"
  define pre' where "pre' = pre @ [d]"
  have app: "pre' @ ds = pre @ d # ds" by (simp add: pre'_def)
  have len': "length pre' = Suc i" by (simp add: pre'_def i_def)
  have ne': "pre' @ ds \<noteq> []" by (simp add: pre'_def)
  have last': "last pre' = d" by (simp add: pre'_def)
  have nth_old: "\<And>j. j < i \<Longrightarrow> pre' ! j = pre ! j" by (simp add: pre'_def i_def nth_append)
  have nth_new: "pre' ! i = d" by (simp add: pre'_def i_def)
  show ?case
  proof (cases "i > 0 \<and> p \<noteq> d")
    case True
    then have "pre \<noteq> []" by (simp add: i_def)
    from run_invD[OF Cons.prems(3) this] obtain f where f: "f < i" "cur = [f..<i]" "p = last pre"
      "\<forall>j. f \<le> j \<and> j < i \<longrightarrow> pre ! j = p"
      "f = 0 \<or> (pre ! (f - 1) \<noteq> pre ! f \<and> int f < c)" unfolding i_def by (elim exE conjE)
    from f(3) \<open>pre \<noteq> []\<close> have plast: "pre ! (i - 1) = p" by (simp add: last_conv_nth i_def)
    show ?thesis
    proof (cases "int i \<ge> c")
      case ge: True
      define l where "l = i - 1"
      from f(1) have il: "i = Suc l" by (simp add: l_def)
      from f(1) have fl: "f \<le> l" by (simp add: l_def)
      have leni: "length pre = Suc l" using il by (simp add: i_def)
      from Cons.prems(1) True ge have "cur' = cur" by (simp add: i_def)
      with f(2) have 1: "cur' = [f..<Suc l]" by (simp only: il)
      have 2: "l < length (pre @ d # ds)" by (simp add: leni)
      have pl: "pre ! l = p" using plast by (simp add: l_def)
      have 3: "\<forall>j. f \<le> j \<and> j \<le> l \<longrightarrow> (pre @ d # ds) ! j = (pre @ d # ds) ! l"
      proof (intro allI impI)
        fix j assume j: "f \<le> j \<and> j \<le> l"
        then have "f \<le> j \<and> j < i" by (simp add: il)
        with f(4) have "pre ! j = p" by blast
        moreover from j have "j < length pre" by (simp add: leni)
        ultimately show "(pre @ d # ds) ! j = (pre @ d # ds) ! l"
          using pl by (simp add: nth_append leni)
      qed
      have 4: "f = 0 \<or> ((pre @ d # ds) ! (f - 1) \<noteq> (pre @ d # ds) ! f \<and> int f < c)"
      proof (cases "f = 0")
        case True then show ?thesis by simp
      next
        case False
        with f(5) have "pre ! (f - 1) \<noteq> pre ! f \<and> int f < c" by simp
        moreover from fl have "f < length pre" "f - 1 < length pre" by (simp_all add: leni)
        ultimately show ?thesis by (simp add: nth_append)
      qed
      have "(pre @ d # ds) ! Suc l \<noteq> (pre @ d # ds) ! l \<and> c \<le> int (Suc l)"
        using True ge pl by (simp add: nth_append leni il)
      then have 5: "Suc l = length (pre @ d # ds) \<or>
          ((pre @ d # ds) ! Suc l \<noteq> (pre @ d # ds) ! l \<and> c \<le> int (Suc l))" by (rule disjI2)
      from 1 fl 2 3 4 5 show ?thesis by - (rule exI[of _ f], rule exI[of _ l], intro conjI)
    next
      case False
      with True Cons.prems(1)
      have call: "scan_chunks ds c (length pre') d [i] (cc + 1) = (cur', cc')"
        by (simp add: i_def len')
      have "i < length pre'" by (simp add: len')
      moreover have "[i] = [i..<length pre']" by (simp add: len')
      moreover have "\<forall>j. i \<le> j \<and> j < length pre' \<longrightarrow> pre' ! j = d"
        using nth_new by (auto simp add: len' less_Suc_eq_le)
      moreover have "pre' ! (i - 1) \<noteq> pre' ! i \<and> int i < c"
        using True False plast nth_old[of "i - 1"] nth_new by simp
      ultimately have inv: "run_inv c pre' d [i]"
        using last' by (intro run_invI[of i]) simp_all
      from Cons.IH[OF call ne' inv] show ?thesis unfolding app .
    qed
  next
    case False
    with Cons.prems(1)
    have call: "scan_chunks ds c (length pre') d (cur @ [i]) cc = (cur', cc')"
      by (auto simp add: i_def len')
    have inv: "run_inv c pre' d (cur @ [i])"
    proof (cases "pre = []")
      case True
      with Cons.prems(3) have "cur = []" using run_inv_NilD[of c p cur] by simp
      with True have 1: "cur @ [i] = [0..<length pre']" by (simp add: i_def pre'_def)
      have 2: "(0::nat) < length pre'" by (simp add: len')
      have 3: "\<forall>j. 0 \<le> j \<and> j < length pre' \<longrightarrow> pre' ! j = d"
        using True by (simp add: pre'_def)
      from 2 1 3 show ?thesis using last' by (intro run_invI[of 0]) simp_all
    next
      case ne: False
      then have ipos: "i > 0" by (simp add: i_def)
      with False have pd: "p = d" by simp
      from run_invD[OF Cons.prems(3) ne] obtain f where f: "f < i" "cur = [f..<i]" "p = last pre"
        "\<forall>j. f \<le> j \<and> j < i \<longrightarrow> pre ! j = p"
        "f = 0 \<or> (pre ! (f - 1) \<noteq> pre ! f \<and> int f < c)" unfolding i_def by (elim exE conjE)
      from f(1,2) have 1: "cur @ [i] = [f..<length pre']" by (simp add: len')
      have 2: "f < length pre'" using f(1) by (simp add: len')
      have 3: "\<forall>j. f \<le> j \<and> j < length pre' \<longrightarrow> pre' ! j = d"
      proof (intro allI impI)
        fix j assume "f \<le> j \<and> j < length pre'"
        then have "j < i \<or> j = i" "f \<le> j" by (auto simp add: len')
        then show "pre' ! j = d" using f(4) pd nth_old nth_new by auto
      qed
      have 4: "f = 0 \<or> (pre' ! (f - 1) \<noteq> pre' ! f \<and> int f < c)"
        using f(5) f(1) nth_old[of f] nth_old[of "f - 1"] by auto
      from 2 1 3 4 show ?thesis using last' by (intro run_invI[of f]) simp_all
    qed
    from Cons.IH[OF call ne' inv] show ?thesis unfolding app .
  qed
qed

lemma chunk_inv_start: "chunk_inv [] 0"
  unfolding chunk_inv_def by simp

lemma run_inv_start: "run_inv c [] p []"
  unfolding run_inv_def by simp

lemma scan_chunks_start:
  assumes "ds \<noteq> []"
  shows "\<exists>f l cc. scan_chunks ds c 0 p [] 1 = ([f..<Suc l], cc) \<and> f \<le> l \<and> l < length ds \<and>
           (\<forall>j. f \<le> j \<and> j \<le> l \<longrightarrow> ds ! j = ds ! l) \<and>
           (f = 0 \<or> (ds ! (f - 1) \<noteq> ds ! f \<and> int f < c)) \<and>
           (Suc l = length ds \<or> (ds ! Suc l \<noteq> ds ! l \<and> c \<le> int (Suc l)))"
proof -
  obtain cur' cc' where r0: "scan_chunks ds c 0 p [] 1 = (cur', cc')"
    by (rule prod.exhaust)
  have r: "scan_chunks ds c (length ([]::real list)) p [] 1 = (cur', cc')"
    unfolding list.size by (rule r0)
  have ne: "[] @ ds \<noteq> []" unfolding append_Nil by (rule assms)
  from scan_chunks_run[OF r ne run_inv_start, unfolded append_Nil]
  obtain f l where fl: "cur' = [f..<Suc l]" "f \<le> l" "l < length ds"
    "\<forall>j. f \<le> j \<and> j \<le> l \<longrightarrow> ds ! j = ds ! l"
    "f = 0 \<or> (ds ! (f - 1) \<noteq> ds ! f \<and> int f < c)"
    "Suc l = length ds \<or> (ds ! Suc l \<noteq> ds ! l \<and> c \<le> int (Suc l))"
    by (elim exE conjE)
  from r0 have 1: "scan_chunks ds c 0 p [] 1 = ([f..<Suc l], cc')" unfolding fl(1) .
  from 1 fl(2-6) show ?thesis
    by - (rule exI[of _ f], rule exI[of _ l], rule exI[of _ cc'], intro conjI)
qed

lemma find_cut_eq:
  assumes "scan_chunks ds c 0 (ds ! 0) [] 1 = ([f..<Suc l], cc)" and "f \<le> l"
  shows "find_cut ds c =
    \<lparr> firstpos = f, lastpos = l, delta = (c - int f) - (int l - c), chunks = cc,
      cutpos = (if (c - int f) - (int l - c) > 0 then l + 1
                else if (c - int f) - (int l - c) < 0 then f
                else if cc mod 2 = 0 then f else l + 1) \<rparr>"
proof -
  from assms(2) have h: "hd [f..<Suc l] = f" by (simp only: hd_upt less_Suc_eq_le)
  from assms(2) have l: "last [f..<Suc l] = l" by (simp only: last_upt less_Suc_eq_le diff_Suc_1)
  show ?thesis unfolding find_cut_def assms(1) Let_def prod.case h l by (simp only: Suc_eq_plus1)
qed




lemma truncate_to_idem: "truncate_to c (truncate_to c vp) = truncate_to c vp"
  by (simp add: truncate_to_def)

text \<open>
  Claim C4, as amended. If \<open>_select_approx\<close> with count \<open>c\<close> returns \<open>out\<close>, then running
  it on \<open>out\<close> with a count \<open>c'\<close> from \<open>c\<close> up returns \<open>out\<close> unchanged when \<open>out\<close> has a
  voxel and at least \<open>c'\<close> of them, and \<open>None\<close> otherwise.
\<close>

theorem select_approx_rerun:
  assumes sel: "select_approx vp (Some c) = Some out" and cc': "c \<le> c'"
  shows "select_approx out (Some c') =
           (if center_distances out \<noteq> [] \<and> c' \<le> int (length (center_distances out))
            then Some out else None)"
proof (cases "center_distances out \<noteq> [] \<and> c' \<le> int (length (center_distances out))")
  case False
  then show ?thesis by (auto simp add: select_approx_def Let_def)
next
  case True
  define ds where "ds = center_distances vp"
  from sel have ne: "ds \<noteq> []" and cn: "c \<le> int (length ds)"
    and out: "out = truncate_to (cutpos (find_cut ds c)) vp"
    by (auto simp add: select_approx_def Let_def ds_def split: if_splits)
  from scan_chunks_start[OF ne, of c "ds ! 0"]
  obtain f l cc where sc: "scan_chunks ds c 0 (ds ! 0) [] 1 = ([f..<Suc l], cc)"
    and fl: "f \<le> l" and ln: "l < length ds"
    and left: "f = 0 \<or> (ds ! (f - 1) \<noteq> ds ! f \<and> int f < c)"
    by (elim exE conjE)
  note fc = find_cut_eq[OF sc fl]
  define m where "m = cutpos (find_cut ds c)"
  have m_cases: "m = f \<or> m = Suc l" unfolding m_def fc by simp
  then have mn: "m \<le> length ds" using fl ln by auto
  have outm: "out = truncate_to m vp" using out by (simp add: m_def)
  then have dso: "center_distances out = take m ds" by (simp add: truncate_to_def ds_def)
  with mn have leno: "length (center_distances out) = m" by simp
  from True dso have mpos: "0 < m" by auto
  from True leno have c'm: "c' \<le> int m" by simp
  have mf: "m \<noteq> f"
  proof
    assume "m = f"
    with mpos left have "int f < c" by simp
    with cc' c'm \<open>m = f\<close> show False by simp
  qed
  with m_cases have ml: "m = Suc l" by simp
  have d0: "0 < (c - int f) - (int l - c) \<or>
            ((c - int f) - (int l - c) = 0 \<and> cc mod 2 \<noteq> 0)"
    using mf fl unfolding m_def fc by (simp split: if_splits)
  have split: "ds = take m ds @ drop m ds" by simp
  have sc2: "scan_chunks (take m ds @ drop m ds) c 0 (ds ! 0) [] 1 = ([f..<Suc l], cc)"
    using sc by simp
  have nonempty: "[f..<Suc l] \<noteq> []" using fl by simp
  have lst: "Suc (last [f..<Suc l]) = 0 + length (take m ds)"
    using fl mn ml by (simp only: last_upt less_Suc_eq_le diff_Suc_1 length_take min_absorb2 add_0)
  from scan_chunks_prefix[OF chunk_inv_start sc2 nonempty lst cc']
  have sc3: "scan_chunks (take m ds) c' 0 (ds ! 0) [] 1 = ([f..<Suc l], cc)" .
  have hd0: "take m ds ! 0 = ds ! 0" using mpos by simp
  from sc3 have sc4: "scan_chunks (take m ds) c' 0 (take m ds ! 0) [] 1 = ([f..<Suc l], cc)"
    unfolding hd0 .
  note fc' = find_cut_eq[OF sc4 fl]
  have cut': "cutpos (find_cut (take m ds) c') = m"
    unfolding fc' using d0 cc' ml by (auto split: if_splits)
  have "select_approx out (Some c') = Some (truncate_to m out)"
    using True cut' dso by (auto simp add: select_approx_def Let_def)
  also have "truncate_to m out = out" unfolding outm by (rule truncate_to_idem)
  finally show ?thesis using True by simp
qed

text \<open>
  Claim C5, as amended. On the distances \<open>1, 1, 2, 2, 2, 3\<close> with count \<open>3\<close> the chunk at
  the cutoff has first position \<open>2\<close> and last position \<open>4\<close>, \<open>delta = (3-2)-(4-3) = 0\<close>,
  and the tie is decided by the even number \<open>2\<close> of chunks: the cut is at position \<open>2\<close>
  and the first two voxels are returned.
\<close>

theorem tie_example_cut:
  "find_cut (center_distances ex_tie) 3 =
     \<lparr> firstpos = 2, lastpos = 4, delta = 0, chunks = 2, cutpos = 2 \<rparr> \<and>
   select_approx ex_tie (Some 3) = Some (truncate_to 2 ex_tie) \<and>
   linear_voxel_indices (truncate_to 2 ex_tie) = [10, 11]"
  by (simp add: ex_tie_def find_cut_def select_approx_def truncate_to_def)

text \<open>
  Claim C5 as stated fails: the last position of the chunk is not \<open>5\<close> and \<open>delta\<close> is
  not \<open>-1\<close>.
\<close>

theorem tie_example_counterexample:
  "\<not> (firstpos (find_cut (center_distances ex_tie) 3) = 2 \<and>
       lastpos (find_cut (center_distances ex_tie) 3) = 5 \<and>
       delta (find_cut (center_distances ex_tie) 3) = - 1)"
  by (simp add: ex_tie_def find_cut_def)

text \<open>
  Claim C4 as stated fails: the output for count \<open>3\<close> has two voxels, and running
  \<open>_select_approx\<close> on it with the same count returns \<open>None\<close>.
\<close>

theorem select_approx_rerun_counterexample:
  "sorted (center_distances ex_tie) \<and>
   select_approx ex_tie (Some 3) = Some (truncate_to 2 ex_tie) \<and>
   select_approx (truncate_to 2 ex_tie) (Some 3) = None"
  by (simp add: ex_tie_def find_cut_def select_approx_def truncate_to_def)

text \<open>Claim C4, as amended, at count \<open>4\<close> and then \<open>5\<close> on the example.\<close>

theorem select_approx_rerun_witness:
  "select_approx ex_tie (Some 4) = Some (truncate_to 5 ex_tie) \<and> (4::int) \<le> 5 \<and>
   select_approx (truncate_to 5 ex_tie) (Some 5) = Some (truncate_to 5 ex_tie)"
proof -
  have h: "select_approx ex_tie (Some 4) = Some (truncate_to 5 ex_tie)"
    by (simp add: ex_tie_def find_cut_def select_approx_def truncate_to_def)
  have le: "(4::int) \<le> 5" by simp
  from select_approx_rerun[OF h le] h show ?thesis
    by (simp add: ex_tie_def truncate_to_def)
qed

section \<open>Properties of the rounding\<close>

lemma pow2_powr: "pow2 e = 2 powr real_of_int e"
  by (simp add: pow2_def powr_int)

lemma pow2_pos: "0 < pow2 e"
  by (simp add: pow2_powr)

lemma pow2_add: "pow2 (a + b) = pow2 a * pow2 b"
  by (simp add: pow2_powr powr_add)

lemma pow2_mono: "a \<le> b \<Longrightarrow> pow2 a \<le> pow2 b"
  by (simp add: pow2_powr)

lemma pow2_nat: "pow2 (int n) = 2 ^ n"
  by (simp add: pow2_def)

lemma floor_log2_bounds:
  assumes "0 < x"
  shows "pow2 \<lfloor>log 2 x\<rfloor> \<le> x" and "x < pow2 (\<lfloor>log 2 x\<rfloor> + 1)"
proof -
  have "\<lfloor>log 2 x\<rfloor> = \<lfloor>log 2 x\<rfloor>" ..
  then have "2 powr real_of_int \<lfloor>log 2 x\<rfloor> \<le> x \<and> x < 2 powr real_of_int (\<lfloor>log 2 x\<rfloor> + 1)"
    using floor_log_eq_powr_iff[OF assms, of 2 "\<lfloor>log 2 x\<rfloor>"] by simp
  then show "pow2 \<lfloor>log 2 x\<rfloor> \<le> x" and "x < pow2 (\<lfloor>log 2 x\<rfloor> + 1)"
    by (simp_all only: pow2_powr)
qed

lemma floor_log2_eq:
  assumes "pow2 k \<le> x" and "x < pow2 (k + 1)"
  shows "\<lfloor>log 2 x\<rfloor> = k"
proof -
  from assms(1) pow2_pos[of k] have "0 < x" by linarith
  from floor_log_eq_powr_iff[OF this, of 2 k] assms show ?thesis
    by (simp only: pow2_powr)
qed

lemma floor_log2_mono: "0 < x \<Longrightarrow> x \<le> y \<Longrightarrow> \<lfloor>log 2 x\<rfloor> \<le> \<lfloor>log 2 y\<rfloor>"
  by (intro floor_mono) simp

lemma rhe_near: "\<bar>of_int (round_half_even y) - y\<bar> \<le> 1 / 2"
  unfolding round_half_even_def Let_def by (auto simp add: abs_le_iff)

lemma rhe_of_int: "round_half_even (of_int n) = n"
  by (simp add: round_half_even_def)

lemma rhe_mono:
  assumes "y \<le> z"
  shows "round_half_even y \<le> round_half_even z"
proof (cases "\<lfloor>y\<rfloor> = \<lfloor>z\<rfloor>")
  case True
  with assms show ?thesis unfolding round_half_even_def Let_def by auto
next
  case False
  with assms have "\<lfloor>y\<rfloor> < \<lfloor>z\<rfloor>" using floor_mono[OF assms] by linarith
  then have "\<lfloor>y\<rfloor> + 1 \<le> \<lfloor>z\<rfloor>" by simp
  moreover have "round_half_even y \<le> \<lfloor>y\<rfloor> + 1"
    unfolding round_half_even_def Let_def by auto
  moreover have "\<lfloor>z\<rfloor> \<le> round_half_even z"
    unfolding round_half_even_def Let_def by auto
  ultimately show ?thesis by linarith
qed

lemma rhe_minus: "round_half_even (- y) = - round_half_even y"
proof (cases "y = of_int \<lfloor>y\<rfloor>")
  case True
  then obtain n where "y = of_int n" ..
  then show ?thesis by (simp add: rhe_of_int flip: of_int_minus)
next
  case False
  then have fl: "\<lfloor>- y\<rfloor> = - \<lfloor>y\<rfloor> - 1"
    by (simp add: floor_minus ceiling_altdef)
  define n where "n = \<lfloor>y\<rfloor>"
  define r where "r = y - of_int n"
  have r: "0 < r" "r < 1" using False by (simp_all add: r_def n_def) linarith+
  have y: "y = of_int n + r" by (simp add: r_def)
  have r': "- y - of_int (- n - 1) = 1 - r" by (simp add: y)
  have ev: "even (- n - 1) \<longleftrightarrow> odd n" by simp
  show ?thesis
    unfolding round_half_even_def Let_def fl n_def[symmetric] r' ev r_def[symmetric]
    using r by auto
qed

lemma round_to_minus: "round_to p emin (- x) = - round_to p emin x"
  by (simp add: round_to_def Let_def rhe_minus)

lemma round_to_nonneg:
  assumes "0 \<le> x"
  shows "0 \<le> round_to p emin x"
proof (cases "x = 0")
  case True
  then show ?thesis by (simp add: round_to_def)
next
  case False
  define e where "e = max \<lfloor>log 2 \<bar>x\<bar>\<rfloor> emin - (int p - 1)"
  from assms pow2_pos[of e] have "0 \<le> x / pow2 e" by simp
  then have "round_half_even 0 \<le> round_half_even (x / pow2 e)" by (rule rhe_mono)
  then have "0 \<le> round_half_even (x / pow2 e)" using rhe_of_int[of 0] by simp
  with pow2_pos[of e] have "0 \<le> pow2 e * of_int (round_half_even (x / pow2 e))" by simp
  with False show ?thesis by (simp add: round_to_def Let_def e_def)
qed

lemma round_to_eval:
  assumes "pow2 k \<le> \<bar>x\<bar>" and "\<bar>x\<bar> < pow2 (k + 1)" and "emin \<le> k"
  shows "round_to p emin x =
           pow2 (k - (int p - 1)) * of_int (round_half_even (x / pow2 (k - (int p - 1))))"
proof -
  from assms(1) pow2_pos[of k] have "x \<noteq> 0" by auto
  moreover from floor_log2_eq[OF assms(1,2)] assms(3) have "max \<lfloor>log 2 \<bar>x\<bar>\<rfloor> emin = k" by simp
  ultimately show ?thesis by (simp add: round_to_def Let_def)
qed

lemma round_to_error:
  assumes "pow2 emin \<le> \<bar>x\<bar>"
  shows "\<bar>round_to p emin x - x\<bar> \<le> \<bar>x\<bar> / 2 ^ p"
proof -
  from assms pow2_pos[of emin] have pos: "0 < \<bar>x\<bar>" by linarith
  then have nz: "x \<noteq> 0" by auto
  define E where "E = \<lfloor>log 2 \<bar>x\<bar>\<rfloor>"
  have Elo: "pow2 E \<le> \<bar>x\<bar>" unfolding E_def by (rule floor_log2_bounds(1)[OF pos])
  have "\<not> E < emin"
  proof
    assume "E < emin"
    then have "E + 1 \<le> emin" by simp
    then have "pow2 (E + 1) \<le> pow2 emin" by (rule pow2_mono)
    with assms floor_log2_bounds(2)[OF pos] show False unfolding E_def by linarith
  qed
  then have mx: "max E emin = E" by simp
  define q where "q = pow2 (E - (int p - 1))"
  have qpos: "0 < q" unfolding q_def by (rule pow2_pos)
  have R: "round_to p emin x = q * of_int (round_half_even (x / q))"
    using nz by (simp add: round_to_def Let_def E_def[symmetric] mx q_def)
  have "round_to p emin x - x = q * (of_int (round_half_even (x / q)) - x / q)"
    using qpos by (simp add: R algebra_simps)
  then have "\<bar>round_to p emin x - x\<bar> = q * \<bar>of_int (round_half_even (x / q)) - x / q\<bar>"
    using qpos by (simp add: abs_mult)
  also have "\<dots> \<le> q * (1 / 2)" using rhe_near[of "x / q"] qpos by (intro mult_left_mono) simp_all
  finally have 1: "\<bar>round_to p emin x - x\<bar> \<le> q / 2" by simp
  have "pow2 E = q * pow2 (int p - 1)" unfolding q_def pow2_add[symmetric] by simp
  also have "pow2 (int p - 1) = 2 ^ p / 2"
  proof (cases p)
    case 0
    then show ?thesis by (simp add: pow2_def)
  next
    case (Suc n)
    then show ?thesis by (simp add: pow2_def nat_diff_distrib')
  qed
  finally have "q = pow2 E * 2 / 2 ^ p" by simp
  with Elo have "q / 2 \<le> \<bar>x\<bar> / 2 ^ p" by (simp add: divide_right_mono)
  with 1 show ?thesis by linarith
qed

lemma E_upper:
  assumes "0 < x"
  shows "x < pow2 (max \<lfloor>log 2 x\<rfloor> emin + 1)"
proof -
  have "pow2 (\<lfloor>log 2 x\<rfloor> + 1) \<le> pow2 (max \<lfloor>log 2 x\<rfloor> emin + 1)" by (intro pow2_mono) simp
  with floor_log2_bounds(2)[OF assms] show ?thesis by linarith
qed

lemma round_to_mono_pos:
  assumes "0 < x" and "x \<le> y" and "0 < p"
  shows "round_to p emin x \<le> round_to p emin y"
proof -
  from assms have ypos: "0 < y" by linarith
  define Ex where "Ex = max \<lfloor>log 2 x\<rfloor> emin"
  define Ey where "Ey = max \<lfloor>log 2 y\<rfloor> emin"
  define qx where "qx = pow2 (Ex - (int p - 1))"
  define qy where "qy = pow2 (Ey - (int p - 1))"
  have qpos: "0 < qx" "0 < qy" unfolding qx_def qy_def by (rule pow2_pos)+
  have Rx: "round_to p emin x = qx * of_int (round_half_even (x / qx))"
    using assms(1) by (simp add: round_to_def Let_def Ex_def qx_def)
  have Ry: "round_to p emin y = qy * of_int (round_half_even (y / qy))"
    using ypos by (simp add: round_to_def Let_def Ey_def qy_def)
  have ExEy: "Ex \<le> Ey" unfolding Ex_def Ey_def
    using floor_log2_mono[OF assms(1,2)] by simp
  show ?thesis
  proof (cases "Ex = Ey")
    case True
    then have q: "qx = qy" by (simp add: qx_def qy_def)
    from assms(2) qpos have "x / qy \<le> y / qy" by (simp add: divide_right_mono)
    then have "round_half_even (x / qy) \<le> round_half_even (y / qy)" by (rule rhe_mono)
    then have "(of_int (round_half_even (x / qy)) :: real) \<le> of_int (round_half_even (y / qy))"
      by simp
    with qpos show ?thesis unfolding Rx Ry q by (simp add: mult_left_mono)
  next
    case False
    with ExEy have lt: "Ex + 1 \<le> Ey" by simp
    have up: "qx * 2 ^ p = pow2 (Ex + 1)"
    proof -
      have "pow2 (Ex + 1) = qx * pow2 (int p)" unfolding qx_def pow2_add[symmetric] by simp
      then show ?thesis by (simp add: pow2_nat)
    qed
    have "x / qx \<le> pow2 (Ex + 1) / qx"
      using E_upper[OF assms(1), of emin] qpos unfolding Ex_def[symmetric]
      by (simp add: divide_right_mono)
    also have "pow2 (Ex + 1) / qx = of_int (2 ^ p)" using qpos up[symmetric] by simp
    finally have "round_half_even (x / qx) \<le> round_half_even (of_int (2 ^ p))" by (rule rhe_mono)
    then have "round_half_even (x / qx) \<le> 2 ^ p" by (simp only: rhe_of_int)
    then have "(of_int (round_half_even (x / qx)) :: real) \<le> 2 ^ p"
      by (metis of_int_le_iff of_int_numeral of_int_power)
    with qpos have "round_to p emin x \<le> qx * 2 ^ p" unfolding Rx by (simp add: mult_left_mono)
    then have 1: "round_to p emin x \<le> pow2 (Ex + 1)" by (simp only: up)
    have "emin < Ey" using lt unfolding Ex_def by simp
    then have Eyf: "Ey = \<lfloor>log 2 y\<rfloor>" unfolding Ey_def by simp
    have ylo: "pow2 Ey \<le> y" unfolding Eyf by (rule floor_log2_bounds(1)[OF ypos])
    obtain n where p: "p = Suc n" using assms(3) by (cases p) simp_all
    have lo: "qy * 2 ^ n = pow2 Ey"
    proof -
      have "pow2 Ey = qy * pow2 (int n)" unfolding qy_def pow2_add[symmetric] by (simp add: p)
      then show ?thesis by (simp add: pow2_nat)
    qed
    have "of_int (2 ^ n) = pow2 Ey / qy" using qpos lo[symmetric] by simp
    also have "\<dots> \<le> y / qy" using ylo qpos by (simp add: divide_right_mono)
    finally have "round_half_even (of_int (2 ^ n)) \<le> round_half_even (y / qy)" by (rule rhe_mono)
    then have "2 ^ n \<le> round_half_even (y / qy)" by (simp only: rhe_of_int)
    then have "(2 ^ n :: real) \<le> of_int (round_half_even (y / qy))"
      by (metis of_int_le_iff of_int_numeral of_int_power)
    with qpos have "qy * 2 ^ n \<le> round_to p emin y" unfolding Ry by (simp add: mult_left_mono)
    then have 2: "pow2 Ey \<le> round_to p emin y" by (simp only: lo)
    from pow2_mono[OF lt] 1 2 show ?thesis by linarith
  qed
qed

lemma round_to_mono:
  assumes "x \<le> y" and "0 < p"
  shows "round_to p emin x \<le> round_to p emin y"
proof -
  consider "0 < x" | "x \<le> 0" "0 \<le> y" | "y < 0" by linarith
  then show ?thesis
  proof cases
    case 1
    then show ?thesis using assms by (intro round_to_mono_pos)
  next
    case 2
    from 2(1) have "0 \<le> round_to p emin (- x)" by (intro round_to_nonneg) simp
    then have "round_to p emin x \<le> 0" by (simp add: round_to_minus)
    with round_to_nonneg[OF 2(2), of p emin] show ?thesis by linarith
  next
    case 3
    with assms have "0 < - y" "- y \<le> - x" by simp_all
    from round_to_mono_pos[OF this assms(2), of emin] show ?thesis by (simp add: round_to_minus)
  qed
qed

lemma round64_mono: "x \<le> y \<Longrightarrow> round64 x \<le> round64 y"
  unfolding round64_def by (rule round_to_mono) simp_all

lemma round32_mono: "x \<le> y \<Longrightarrow> round32 x \<le> round32 y"
  unfolding round32_def by (rule round_to_mono) simp_all

lemma round64_error: "pow2 (- 1022) \<le> \<bar>x\<bar> \<Longrightarrow> \<bar>round64 x - x\<bar> \<le> \<bar>x\<bar> / 2 ^ 53"
  unfolding round64_def by (rule round_to_error)

lemma round64_0: "round64 0 = 0"
  by (simp add: round64_def round_to_def)

lemma round32_0: "round32 0 = 0"
  by (simp add: round32_def round_to_def)

lemma round64_eval:
  assumes "pow2 k \<le> \<bar>x\<bar>" and "\<bar>x\<bar> < pow2 (k + 1)" and "- 1022 \<le> k"
  shows "round64 x = pow2 (k - 52) * of_int (round_half_even (x / pow2 (k - 52)))"
  unfolding round64_def using round_to_eval[OF assms, of 53] by simp

lemma round32_eval:
  assumes "pow2 k \<le> \<bar>x\<bar>" and "\<bar>x\<bar> < pow2 (k + 1)" and "- 126 \<le> k"
  shows "round32 x = pow2 (k - 23) * of_int (round_half_even (x / pow2 (k - 23)))"
  unfolding round32_def using round_to_eval[OF assms, of 24] by simp

lemmas round_eval_defs = pow2_def round_half_even_def Let_def

section \<open>Properties of \<open>nodes2voxel_attributes\<close>\<close>

lemma map_fst_add_dp:
  "map fst (add_dp vx dp m) =
     (if vx \<in> set (map fst m) then map fst m else map fst m @ [vx])"
  by (induction m) (force split: if_splits)+

lemma keys_add_dp: "fst ` set (add_dp vx dp m) = insert vx (fst ` set m)"
proof -
  have "set (map fst (add_dp vx dp m)) = insert vx (set (map fst m))"
    unfolding map_fst_add_dp by auto
  then show ?thesis by simp
qed

lemma insert_not_Nil: "List.insert x xs \<noteq> []"
  by (auto simp add: List.insert_def)

lemma map_of_add_dp:
  "map_of (add_dp vx dp m) =
     (map_of m)(vx \<mapsto> (case map_of m vx of None \<Rightarrow> [dp] | Some s \<Rightarrow> List.insert dp s))"
  by (induction m) (auto simp add: fun_eq_iff)

lemma dps_add_dp: "dps (add_dp vx dp m) v = (if v = vx then insert dp (dps m v) else dps m v)"
  by (simp add: dps_def map_of_add_dp split: option.splits)

lemma wf_add_dp: "wf_v2dps m \<Longrightarrow> wf_v2dps (add_dp vx dp m)"
proof (induction m)
  case Nil
  then show ?case by (simp add: wf_v2dps_def)
next
  case (Cons a m)
  obtain k s where a: "a = (k, s)" by (cases a)
  from Cons.prems have wfm: "wf_v2dps m" by (auto simp add: wf_v2dps_def)
  from Cons.IH[OF wfm] have ih: "wf_v2dps (add_dp vx dp m)" .
  show ?case
  proof (cases "k = vx")
    case True
    with Cons.prems a show ?thesis by (auto simp add: wf_v2dps_def insert_not_Nil)
  next
    case False
    from Cons.prems a have "k \<notin> fst ` set m" "s \<noteq> []" by (auto simp add: wf_v2dps_def)
    with False have "k \<notin> fst ` set (add_dp vx dp m)" by (simp add: keys_add_dp)
    with ih False a \<open>s \<noteq> []\<close> show ?thesis by (auto simp add: wf_v2dps_def)
  qed
qed

lemma wf_fold_add:
  "wf_v2dps m \<Longrightarrow> wf_v2dps (fold (\<lambda>(vx, pos). add_dp vx (d, pos)) vps m)"
  by (induction vps arbitrary: m) (auto simp add: wf_add_dp)

lemma dps_fold_add:
  "dps (fold (\<lambda>(vx, pos). add_dp vx (d, pos)) vps m) v =
     dps m v \<union> set (map (\<lambda>(v, p). (d, p)) (filter (\<lambda>(v', p). v' = v) vps))"
  by (induction vps arbitrary: m) (auto simp add: dps_add_dp)

lemma wf_collect_node: "wf_v2dps m \<Longrightarrow> wf_v2dps (collect_node tbl x m)"
  by (cases x) (simp add: collect_node_def wf_fold_add split: option.splits)

lemma dps_collect_node:
  "dps (collect_node tbl (nd, d) m) v = dps m v \<union> set (candidates [(nd, d)] tbl v)"
  by (simp add: collect_node_def candidates_def dps_fold_add split: option.splits)

lemma candidates_Cons:
  "candidates (x # around) tbl v = candidates [x] tbl v @ candidates around tbl v"
  by (simp add: candidates_def)

lemma wf_fold_collect: "wf_v2dps m \<Longrightarrow> wf_v2dps (fold (collect_node tbl) around m)"
  by (induction around arbitrary: m) (simp_all add: wf_collect_node)

lemma dps_fold_collect:
  "dps (fold (collect_node tbl) around m) v = dps m v \<union> set (candidates around tbl v)"
proof (induction around arbitrary: m)
  case Nil
  then show ?case by (simp add: candidates_def)
next
  case (Cons x around)
  obtain nd d where x: "x = (nd, d)" by (cases x)
  have "dps (fold (collect_node tbl) (x # around) m) v =
        dps (collect_node tbl x m) v \<union> set (candidates around tbl v)"
    using Cons.IH by simp
  also have "\<dots> = dps m v \<union> set (candidates [x] tbl v) \<union> set (candidates around tbl v)"
    unfolding x by (simp add: dps_collect_node)
  also have "\<dots> = dps m v \<union> set (candidates (x # around) tbl v)"
    by (subst candidates_Cons[of x around]) auto
  finally show ?case .
qed

lemma wf_collect: "wf_v2dps (collect around tbl)"
  unfolding collect_def by (rule wf_fold_collect) (simp add: wf_v2dps_def)

lemma dps_collect: "dps (collect around tbl) v = set (candidates around tbl v)"
  unfolding collect_def by (simp add: dps_fold_collect) (simp add: dps_def)

lemma wf_entry:
  assumes "wf_v2dps m" and "(vx, s) \<in> set m"
  shows "s \<noteq> [] \<and> dps m vx = set s"
proof -
  from assms have "distinct (map fst m)" and ne: "s \<noteq> []" by (auto simp add: wf_v2dps_def)
  with assms(2) have "map_of m vx = Some s" by simp
  with ne show ?thesis by (simp add: dps_def)
qed

lemma wf_keys:
  assumes "wf_v2dps m"
  shows "fst ` set m = {vx. dps m vx \<noteq> {}}"
proof (intro set_eqI iffI)
  fix vx assume "vx \<in> fst ` set m"
  then obtain s where "(vx, s) \<in> set m" by auto
  from wf_entry[OF assms this] show "vx \<in> {vx. dps m vx \<noteq> {}}" by simp
next
  fix vx assume "vx \<in> {vx. dps m vx \<noteq> {}}"
  then have "map_of m vx \<noteq> None" by (auto simp add: dps_def)
  then show "vx \<in> fst ` set m" by (simp add: map_of_eq_None_iff)
qed

lemma distinct_map_insort_key:
  "distinct (map g (insort_key f x xs)) \<longleftrightarrow> g x \<notin> g ` set xs \<and> distinct (map g xs)"
  by (induction xs) (auto simp add: set_insort_key)

lemma distinct_map_sort_key: "distinct (map g (sort_key f xs)) \<longleftrightarrow> distinct (map g xs)"
  by (induction xs) (simp_all add: distinct_map_insort_key)

lemma unpack_dp_eq: "unpack_dp (vx, s) = (vx, min_list s)"
  by (simp add: unpack_dp_def split: prod.splits)

lemma fst_unpack_dp: "fst (unpack_dp x) = fst x"
  by (cases x) (simp add: unpack_dp_eq)

lemma vdp_facts:
  assumes vdp: "vdp = sort_key (\<lambda>(vx, d, p). d)
                        (map unpack_dp (iteritems slot (collect around tbl)))"
  shows "distinct (map fst vdp)"
    and "fst ` set vdp = {vx. candidates around tbl vx \<noteq> []}"
    and "x \<in> set vdp \<Longrightarrow> snd x = Min (set (candidates around tbl (fst x)))"
    and "sorted (map (\<lambda>(vx, d, p). d) vdp)"
proof -
  define m where "m = collect around tbl"
  have wf: "wf_v2dps m" unfolding m_def by (rule wf_collect)
  have set_vdp: "set vdp = unpack_dp ` set m"
    by (simp add: vdp iteritems_def m_def)
  have mapfst: "map fst (map unpack_dp (iteritems slot m)) = map fst (iteritems slot m)"
    by (simp add: fst_unpack_dp)
  have "distinct (map fst vdp) \<longleftrightarrow> distinct (map fst (iteritems slot m))"
    unfolding vdp m_def[symmetric] distinct_map_sort_key mapfst ..
  also have "\<dots> \<longleftrightarrow> distinct (map fst m)"
    unfolding iteritems_def by (rule distinct_map_sort_key)
  finally show "distinct (map fst vdp)" using wf by (simp add: wf_v2dps_def)
  have "fst ` set vdp = fst ` set m"
    unfolding set_vdp by (simp add: image_image fst_unpack_dp)
  also have "\<dots> = {vx. dps m vx \<noteq> {}}" by (rule wf_keys[OF wf])
  also have "\<dots> = {vx. candidates around tbl vx \<noteq> []}"
    by (simp add: m_def dps_collect)
  finally show "fst ` set vdp = {vx. candidates around tbl vx \<noteq> []}" .
  show "sorted (map (\<lambda>(vx, d, p). d) vdp)"
    unfolding vdp by (rule sorted_sort_key)
  assume "x \<in> set vdp"
  then obtain vx s where vs: "(vx, s) \<in> set m" and x: "x = unpack_dp (vx, s)"
    unfolding set_vdp by auto
  from wf_entry[OF wf vs] have ne: "s \<noteq> []" and d: "dps m vx = set s" by simp_all
  from d have "set s = set (candidates around tbl vx)" by (simp add: m_def dps_collect)
  moreover from ne have "min_list s = Min (set s)" by (rule min_list_Min)
  ultimately show "snd x = Min (set (candidates around tbl (fst x)))"
    unfolding x by (simp add: unpack_dp_eq)
qed

lemma sorted_map_round32: "sorted xs \<Longrightarrow> sorted (map round32 xs)"
  by (induction xs) (auto simp add: round32_mono)

text \<open>
  Claim C7, as amended. For every distance map and table within the range of the
  arrays, every iteration order of the dict of candidates and every conversion to
  \<open>int32\<close>: the output lists, each once, the voxels that have a candidate, in the
  order of ascending least distance; the three arrays have one length; a voxel is
  stored with its index converted to \<open>int32\<close> and with the distance and the position
  of the least of its candidates in the lexicographic order of pairs, each rounded
  to the nearest binary32 number; and the stored distances are sorted.
\<close>

theorem nodes2voxel_attributes_closest_wins:
  assumes "array_range around tbl"
  shows "\<exists>vxs. distinct vxs \<and> set vxs = {vx. candidates around tbl vx \<noteq> []} \<and>
           sorted (map (\<lambda>vx. fst (Min (set (candidates around tbl vx)))) vxs) \<and>
           linear_voxel_indices (nodes2voxel_attributes rt around tbl) =
             map (np_int32 rt) vxs \<and>
           center_distances (nodes2voxel_attributes rt around tbl) =
             map (\<lambda>vx. round32 (fst (Min (set (candidates around tbl vx))))) vxs \<and>
           grey_matter_position (nodes2voxel_attributes rt around tbl) =
             map (\<lambda>vx. round32 (snd (Min (set (candidates around tbl vx))))) vxs \<and>
           sorted (center_distances (nodes2voxel_attributes rt around tbl)) \<and>
           length (linear_voxel_indices (nodes2voxel_attributes rt around tbl)) =
             length (center_distances (nodes2voxel_attributes rt around tbl)) \<and>
           length (grey_matter_position (nodes2voxel_attributes rt around tbl)) =
             length (center_distances (nodes2voxel_attributes rt around tbl))"
proof -
  define vdp where
    "vdp = sort_key (\<lambda>(vx, d, p). d)
             (map unpack_dp (iteritems (dict_order rt) (collect around tbl)))"
  define vxs where "vxs = map fst vdp"
  define least where "least = (\<lambda>vx. Min (set (candidates around tbl vx)))"
  note facts = vdp_facts[OF vdp_def]
  have p1: "(\<lambda>(vx, d, p). np_int32 rt vx) = (\<lambda>x :: voxel \<times> real \<times> real. np_int32 rt (fst x))"
    and p2: "(\<lambda>(vx, d, p). round32 d) = (\<lambda>x :: voxel \<times> real \<times> real. round32 (fst (snd x)))"
    and p3: "(\<lambda>(vx, d, p). round32 p) = (\<lambda>x :: voxel \<times> real \<times> real. round32 (snd (snd x)))"
    and p4: "(\<lambda>(vx, d, p). d) = (\<lambda>x :: voxel \<times> real \<times> real. fst (snd x))"
    by (simp_all add: fun_eq_iff)
  have el: "snd x = least (fst x)" if "x \<in> set vdp" for x
    unfolding least_def using facts(3)[OF that] .
  have lvi: "linear_voxel_indices (nodes2voxel_attributes rt around tbl) =
             map (np_int32 rt) vxs"
    by (simp add: nodes2voxel_attributes_def Let_def vdp_def[symmetric] p1 vxs_def)
  have ds: "map (\<lambda>x. fst (snd x)) vdp = map (\<lambda>vx. fst (least vx)) vxs"
    unfolding vxs_def map_map by (rule map_cong) (simp_all add: el)
  have cd: "center_distances (nodes2voxel_attributes rt around tbl) =
             map (\<lambda>vx. round32 (fst (least vx))) vxs"
  proof -
    have "center_distances (nodes2voxel_attributes rt around tbl) =
          map (\<lambda>x. round32 (fst (snd x))) vdp"
      by (simp add: nodes2voxel_attributes_def Let_def vdp_def[symmetric] p2)
    also have "\<dots> = map (\<lambda>vx. round32 (fst (least vx))) vxs"
      unfolding vxs_def map_map by (rule map_cong) (simp_all add: el)
    finally show ?thesis .
  qed
  have gmp: "grey_matter_position (nodes2voxel_attributes rt around tbl) =
             map (\<lambda>vx. round32 (snd (least vx))) vxs"
  proof -
    have "grey_matter_position (nodes2voxel_attributes rt around tbl) =
          map (\<lambda>x. round32 (snd (snd x))) vdp"
      by (simp add: nodes2voxel_attributes_def Let_def vdp_def[symmetric] p3)
    also have "\<dots> = map (\<lambda>vx. round32 (snd (least vx))) vxs"
      unfolding vxs_def map_map by (rule map_cong) (simp_all add: el)
    finally show ?thesis .
  qed
  have 1: "distinct vxs" unfolding vxs_def by (rule facts(1))
  have 2: "set vxs = {vx. candidates around tbl vx \<noteq> []}"
    unfolding vxs_def using facts(2) by simp
  have 3: "sorted (map (\<lambda>vx. fst (least vx)) vxs)"
    using facts(4) unfolding p4 ds .
  have "sorted (map round32 (map (\<lambda>vx. fst (least vx)) vxs))"
    by (rule sorted_map_round32[OF 3])
  then have 4: "sorted (center_distances (nodes2voxel_attributes rt around tbl))"
    unfolding cd by (simp add: comp_def)
  have 5: "length (linear_voxel_indices (nodes2voxel_attributes rt around tbl)) =
             length (center_distances (nodes2voxel_attributes rt around tbl))"
    and 6: "length (grey_matter_position (nodes2voxel_attributes rt around tbl)) =
             length (center_distances (nodes2voxel_attributes rt around tbl))"
    unfolding lvi cd gmp by simp_all
  from 1 2 3 lvi cd gmp 4 5 6 show ?thesis
    unfolding least_def by (intro exI[of _ vxs] conjI)
qed

lemma round32_examples:
  "round32 1 = 1" "round32 2 = 2" "round32 4 = 4" "round32 (7 / 8) = 7 / 8"
  "round32 (3 / 4) = 3 / 4" "round32 (1 / 4) = 1 / 4" "round32 (1 / 2) = 1 / 2"
  "round32 (1 / 8) = 1 / 8"
proof -
  show "round32 1 = 1" by (subst round32_eval[of 0]) (simp_all add: round_eval_defs)
  show "round32 2 = 2" by (subst round32_eval[of 1]) (simp_all add: round_eval_defs)
  show "round32 4 = 4" by (subst round32_eval[of 2]) (simp_all add: round_eval_defs)
  show "round32 (7 / 8) = 7 / 8"
    by (subst round32_eval[of "- 1"]) (simp_all add: round_eval_defs)
  show "round32 (3 / 4) = 3 / 4"
    by (subst round32_eval[of "- 1"]) (simp_all add: round_eval_defs)
  show "round32 (1 / 4) = 1 / 4"
    by (subst round32_eval[of "- 2"]) (simp_all add: round_eval_defs)
  show "round32 (1 / 2) = 1 / 2"
    by (subst round32_eval[of "- 1"]) (simp_all add: round_eval_defs)
  show "round32 (1 / 8) = 1 / 8"
    by (subst round32_eval[of "- 3"]) (simp_all add: round_eval_defs)
qed

lemma round32_fine: "round32 (1 / 2 + 1 / 2 ^ 30) = 1 / 2"
  by (subst round32_eval[of "- 1"]) (simp_all add: round_eval_defs)

lemmas n2va_defs = nodes2voxel_attributes_def collect_def collect_node_def iteritems_def
  unpack_dp_def

lemma ex_eval:
  "nodes2voxel_attributes rt_example ex_around ex_tbl =
     \<lparr> linear_voxel_indices = [7, 9, 8], center_distances = [1, 1, 2],
       grey_matter_position = [0.875, 0.75, 0.25] \<rparr>"
  by (simp add: n2va_defs ex_around_def ex_tbl_def rt_example_def wrap32_def
      round32_examples)

text \<open>
  Claim C7, as amended, on the example: the voxels \<open>7\<close>, \<open>9\<close> and \<open>8\<close> are returned with
  the distances \<open>1\<close>, \<open>1\<close> and \<open>2\<close>.
\<close>

theorem nodes2voxel_attributes_closest_wins_witness:
  "array_range ex_around ex_tbl \<and>
   linear_voxel_indices (nodes2voxel_attributes rt_example ex_around ex_tbl) = [7, 9, 8] \<and>
   center_distances (nodes2voxel_attributes rt_example ex_around ex_tbl) = [1, 1, 2] \<and>
   sorted (center_distances (nodes2voxel_attributes rt_example ex_around ex_tbl))"
proof -
  have h: "array_range ex_around ex_tbl"
    by (simp add: array_range_def ex_around_def ex_tbl_def sys_maxint_def)
  from nodes2voxel_attributes_closest_wins[OF h, of rt_example]
  have "sorted (center_distances (nodes2voxel_attributes rt_example ex_around ex_tbl))"
    by blast
  with h show ?thesis by (simp add: ex_eval)
qed

text \<open>
  Claim C7 as stated fails: the voxel \<open>7\<close> has the one candidate \<open>(0, 1/2 + 1/2 ^ 30)\<close>
  and is stored with the position \<open>1/2\<close>, the nearest binary32 number.
\<close>

theorem nodes2voxel_attributes_counterexample:
  "linear_voxel_indices (nodes2voxel_attributes rt_example ex_fine_around ex_fine_tbl) = [7] \<and>
   candidates ex_fine_around ex_fine_tbl 7 = [(0, 1 / 2 + 1 / 2 ^ 30)] \<and>
   center_distances (nodes2voxel_attributes rt_example ex_fine_around ex_fine_tbl) = [0] \<and>
   grey_matter_position (nodes2voxel_attributes rt_example ex_fine_around ex_fine_tbl) = [1 / 2] \<and>
   (center_distances (nodes2voxel_attributes rt_example ex_fine_around ex_fine_tbl) ! 0,
    grey_matter_position (nodes2voxel_attributes rt_example ex_fine_around ex_fine_tbl) ! 0) \<noteq>
   Min (set (candidates ex_fine_around ex_fine_tbl 7))"
proof -
  have "nodes2voxel_attributes rt_example ex_fine_around ex_fine_tbl =
     \<lparr> linear_voxel_indices = [7], center_distances = [round32 0],
       grey_matter_position = [round32 (1 / 2 + 1 / 2 ^ 30)] \<rparr>"
    by (simp add: n2va_defs ex_fine_around_def ex_fine_tbl_def rt_example_def wrap32_def
        del: div_mult_self3 div_mult_self4 div_mult_self2 div_mult_self1)
  then have n: "nodes2voxel_attributes rt_example ex_fine_around ex_fine_tbl =
     \<lparr> linear_voxel_indices = [7], center_distances = [0], grey_matter_position = [1 / 2] \<rparr>"
    by (simp only: round32_fine round32_0)
  have c: "candidates ex_fine_around ex_fine_tbl 7 = [(0, 1 / 2 + 1 / 2 ^ 30)]"
    by (simp add: candidates_def ex_fine_around_def ex_fine_tbl_def)
  show ?thesis unfolding n c by simp
qed

section \<open>Properties of the radius optimizer\<close>

lemma get_next_started:
  assumes "curradius opt = Some r" "count opt = Some n"
  shows "\<exists>opt'. get_next opt = Inr (fmul r (initmult opt), opt') \<and>
           curradius opt' = Some (fmul r (initmult opt)) \<and> count opt' = Some (n + 1) \<and>
           initmult opt' = initmult opt \<and> initradius opt' = initradius opt"
  using assms by (simp add: get_next_def)

lemma get_next_times_radius:
  "curradius opt = Some r \<Longrightarrow> count opt = Some n \<Longrightarrow>
   \<exists>opt'. get_next_times k (r, opt) = Inr (((\<lambda>x. fmul x (initmult opt)) ^^ k) r, opt')"
proof (induction k arbitrary: r opt n)
  case 0
  then show ?case by simp
next
  case (Suc k)
  from get_next_started[OF Suc.prems] obtain opt1 where
    step: "get_next opt = Inr (fmul r (initmult opt), opt1)"
    and o1: "curradius opt1 = Some (fmul r (initmult opt))" "count opt1 = Some (n + 1)"
    and m: "initmult opt1 = initmult opt" by blast
  from Suc.IH[OF o1] obtain opt' where
    "get_next_times k (fmul r (initmult opt), opt1) =
       Inr (((\<lambda>x. fmul x (initmult opt1)) ^^ k) (fmul r (initmult opt)), opt')" by blast
  moreover have "((\<lambda>x. fmul x (initmult opt)) ^^ k) (fmul r (initmult opt)) =
      ((\<lambda>x. fmul x (initmult opt)) ^^ Suc k) r"
    using funpow_swap1[of "\<lambda>x. fmul x (initmult opt)" k r] by simp
  ultimately show ?case using step m by simp
qed

lemma get_next_initradius: "get_next opt = Inr (r, opt') \<Longrightarrow> initradius opt' = initradius opt"
  by (auto simp add: get_next_def split: option.splits)

lemma run_calls_initradius: "run_calls cs opt = Inr opt' \<Longrightarrow> initradius opt' = initradius opt"
proof (induction cs opt rule: run_calls.induct)
  case (1 opt)
  then show ?case by simp
next
  case (2 cs opt)
  then show ?case by (simp add: get_start_def)
next
  case (3 cs opt)
  then show ?case by (auto split: sum.splits dest: get_next_initradius)
next
  case (4 r cs opt)
  then show ?case by (simp add: set_final_def)
qed

lemma fmul_grow:
  assumes "pow2 (- 1022) \<le> a"
  shows "a \<le> fmul a 1.5" and "\<bar>fmul a 1.5 - a * 1.5\<bar> \<le> a * 1.5 / 2 ^ 53"
proof -
  from assms pow2_pos[of "- 1022"] have apos: "0 < a" by linarith
  then have "pow2 (- 1022) \<le> \<bar>a * 1.5\<bar>" using assms by simp
  from round64_error[OF this] apos
  show e: "\<bar>fmul a 1.5 - a * 1.5\<bar> \<le> a * 1.5 / 2 ^ 53" by (simp add: fmul_def)
  have "a * 1.5 / 2 ^ 53 \<le> a * 0.5" using apos by simp
  moreover have "a * 1.5 = a + a * 0.5" by simp
  ultimately show "a \<le> fmul a 1.5" using e by linarith
qed

lemma fmul_iter_bound:
  assumes "pow2 (- 1022) \<le> r"
  shows "r \<le> ((\<lambda>x. fmul x 1.5) ^^ k) r \<and>
         \<bar>((\<lambda>x. fmul x 1.5) ^^ k) r - r * 1.5 ^ k\<bar> \<le>
           ((1 + 1 / 2 ^ 53) ^ k - 1) * (r * 1.5 ^ k)"
proof (induction k)
  case 0
  then show ?case by simp
next
  case (Suc k)
  define a where "a = ((\<lambda>x. fmul x 1.5) ^^ k) r"
  define b where "b = r * 1.5 ^ k"
  define E where "E = (1 + 1 / 2 ^ 53 :: real) ^ k"
  define u where "u = (1 / 2 ^ 53 :: real)"
  from Suc.IH have ra: "r \<le> a" and ab: "\<bar>a - b\<bar> \<le> (E - 1) * b"
    by (simp_all add: a_def b_def E_def)
  from assms ra have alo: "pow2 (- 1022) \<le> a" by linarith
  from assms pow2_pos[of "- 1022"] have rpos: "0 < r" by linarith
  then have bpos: "0 < b" by (simp add: b_def)
  have upos: "0 < u" by (simp add: u_def)
  from fmul_grow[OF alo] have g1: "a \<le> fmul a 1.5"
    and g2: "\<bar>fmul a 1.5 - a * 1.5\<bar> \<le> a * 1.5 * u" by (simp_all add: u_def)
  from ab have aE: "a \<le> E * b" by (simp add: abs_le_iff algebra_simps)
  have "\<bar>fmul a 1.5 - b * 1.5\<bar> \<le> \<bar>fmul a 1.5 - a * 1.5\<bar> + \<bar>a * 1.5 - b * 1.5\<bar>"
    by linarith
  also have "\<bar>a * 1.5 - b * 1.5\<bar> = \<bar>a - b\<bar> * 1.5"
  proof -
    have "a * 1.5 - b * 1.5 = (a - b) * 1.5" by (simp add: algebra_simps)
    then have "\<bar>a * 1.5 - b * 1.5\<bar> = \<bar>(a - b) * 1.5\<bar>" by (simp only:)
    also have "\<dots> = \<bar>a - b\<bar> * \<bar>1.5\<bar>" by (rule abs_mult)
    finally show ?thesis by simp
  qed
  finally have "\<bar>fmul a 1.5 - b * 1.5\<bar> \<le> \<bar>fmul a 1.5 - a * 1.5\<bar> + \<bar>a - b\<bar> * 1.5" .
  also have "\<dots> \<le> a * 1.5 * u + (E - 1) * b * 1.5"
    using g2 ab by (intro add_mono) simp_all
  also have "\<dots> \<le> E * b * 1.5 * u + (E - 1) * b * 1.5"
  proof -
    have "a * (1.5 * u) \<le> (E * b) * (1.5 * u)"
      using aE upos by (intro mult_right_mono) simp_all
    then show ?thesis by (simp add: mult.assoc)
  qed
  also have "\<dots> = (E * (1 + u) - 1) * (b * 1.5)" by (simp add: field_simps)
  finally have bound: "\<bar>fmul a 1.5 - b * 1.5\<bar> \<le> (E * (1 + u) - 1) * (b * 1.5)" .
  have s1: "((\<lambda>x. fmul x 1.5) ^^ Suc k) r = fmul a 1.5" by (simp add: a_def)
  have s2: "r * 1.5 ^ Suc k = b * 1.5" by (simp add: b_def)
  have s3: "(1 + 1 / 2 ^ 53 :: real) ^ Suc k = E * (1 + u)" by (simp add: E_def u_def)
  from ra g1 have "r \<le> fmul a 1.5" by linarith
  with bound show ?case unfolding s1 s2 s3 by simp
qed

text \<open>
  Claim C10, as amended. For a count \<open>c\<close> from \<open>0\<close> to \<open>sys.maxint\<close> the constructor
  succeeds and \<open>get_start\<close> returns the float value of \<open>.001 + 1.5 * float(c) ** .5\<close>;
  \<open>k\<close> calls of \<open>get_next\<close> after it return the result of \<open>k\<close> float multiplications
  of that radius by \<open>1.5\<close>, each rounded, which differs from the radius times
  \<open>1.5 ^ k\<close> by at most the fraction \<open>(1 + 1/2 ^ 53) ^ k - 1\<close> of it (for a radius that
  is a normal number and products below \<open>2 ^ 1023\<close>). For a metric radius \<open>r\<close>,
  \<open>get_start\<close> returns \<open>r\<close>. After any calls of \<open>get_start\<close>, \<open>get_next\<close> and \<open>set_final\<close> that
  raise nothing, \<open>get_start\<close> returns the same initial radius.
\<close>

theorem radius_optimizer_trial_radii:
  "(0 \<le> c \<and> c \<le> sys_maxint \<longrightarrow>
      (\<exists>sel. VoxelSelector_init rt (IntRadius c) sf tbl metric mg = Inr sel \<and>
         fst (get_start (optimizer sel)) = init_radius rt c \<and>
         (\<forall>k. \<exists>opt'. get_next_times k (get_start (optimizer sel)) =
                  Inr (((\<lambda>x. fmul x 1.5) ^^ k) (init_radius rt c), opt')) \<and>
         (\<forall>k. pow2 (- 1022) \<le> init_radius rt c \<and> init_radius rt c * 1.6 ^ k \<le> 2 ^ 1023 \<longrightarrow>
              \<bar>((\<lambda>x. fmul x 1.5) ^^ k) (init_radius rt c) - init_radius rt c * 1.5 ^ k\<bar> \<le>
                ((1 + 1 / 2 ^ 53) ^ k - 1) * (init_radius rt c * 1.5 ^ k)) \<and>
         (\<forall>cs opt'. run_calls cs (optimizer sel) = Inr opt' \<longrightarrow>
                  fst (get_start opt') = init_radius rt c))) \<and>
   (\<exists>sel. VoxelSelector_init rt (FloatRadius r) sf tbl metric mg = Inr sel \<and>
      fst (get_start (optimizer sel)) = r \<and>
      (\<forall>cs opt'. run_calls cs (optimizer sel) = Inr opt' \<longrightarrow> fst (get_start opt') = r))"
proof (intro conjI impI)
  assume c: "0 \<le> c \<and> c \<le> sys_maxint"
  define r0 where "r0 = init_radius rt c"
  define sel where "sel = \<lparr> targetradius = Count c, initradius_mm = r0,
      optimizer = RadiusOptimizer_init r0, distance_metric = metric, surf = sf, n2v = tbl,
      outside_node_margin = mg \<rparr>"
  have "0 \<le> sys_maxint" by (simp add: sys_maxint_def)
  with c have init: "VoxelSelector_init rt (IntRadius c) sf tbl metric mg = Inr sel"
    by (simp add: VoxelSelector_init_def sel_def r0_def init_radius_def)
  have opt: "optimizer sel = RadiusOptimizer_init r0" by (simp add: sel_def)
  have start: "fst (get_start (optimizer sel)) = r0"
    by (simp add: opt get_start_def RadiusOptimizer_init_def)
  have nexts: "\<forall>k. \<exists>opt'. get_next_times k (get_start (optimizer sel)) =
                  Inr (((\<lambda>x. fmul x 1.5) ^^ k) r0, opt')"
  proof
    fix k
    define o1 where "o1 = snd (get_start (optimizer sel))"
    have gs: "get_start (optimizer sel) = (r0, o1)"
      by (simp add: o1_def opt get_start_def RadiusOptimizer_init_def)
    have "curradius o1 = Some r0" "count o1 = Some 0" and m: "initmult o1 = 1.5"
      by (simp_all add: o1_def opt get_start_def RadiusOptimizer_init_def)
    from get_next_times_radius[OF this(1,2), of k]
    show "\<exists>opt'. get_next_times k (get_start (optimizer sel)) =
                  Inr (((\<lambda>x. fmul x 1.5) ^^ k) r0, opt')"
      unfolding gs m .
  qed
  have bound: "\<forall>k. pow2 (- 1022) \<le> r0 \<and> r0 * 1.6 ^ k \<le> 2 ^ 1023 \<longrightarrow>
              \<bar>((\<lambda>x. fmul x 1.5) ^^ k) r0 - r0 * 1.5 ^ k\<bar> \<le>
                ((1 + 1 / 2 ^ 53) ^ k - 1) * (r0 * 1.5 ^ k)"
    using fmul_iter_bound[of r0] by blast
  have calls: "\<forall>cs opt'. run_calls cs (optimizer sel) = Inr opt' \<longrightarrow> fst (get_start opt') = r0"
  proof (intro allI impI)
    fix cs opt' assume "run_calls cs (optimizer sel) = Inr opt'"
    from run_calls_initradius[OF this] show "fst (get_start opt') = r0"
      by (simp add: opt get_start_def RadiusOptimizer_init_def)
  qed
  from init start nexts bound calls
  show "\<exists>sel. VoxelSelector_init rt (IntRadius c) sf tbl metric mg = Inr sel \<and>
         fst (get_start (optimizer sel)) = init_radius rt c \<and>
         (\<forall>k. \<exists>opt'. get_next_times k (get_start (optimizer sel)) =
                  Inr (((\<lambda>x. fmul x 1.5) ^^ k) (init_radius rt c), opt')) \<and>
         (\<forall>k. pow2 (- 1022) \<le> init_radius rt c \<and> init_radius rt c * 1.6 ^ k \<le> 2 ^ 1023 \<longrightarrow>
              \<bar>((\<lambda>x. fmul x 1.5) ^^ k) (init_radius rt c) - init_radius rt c * 1.5 ^ k\<bar> \<le>
                ((1 + 1 / 2 ^ 53) ^ k - 1) * (init_radius rt c * 1.5 ^ k)) \<and>
         (\<forall>cs opt'. run_calls cs (optimizer sel) = Inr opt' \<longrightarrow>
                  fst (get_start opt') = init_radius rt c)"
    unfolding r0_def by (intro exI[of _ sel] conjI)
next
  define sel where "sel = \<lparr> targetradius = Metric r, initradius_mm = r,
      optimizer = RadiusOptimizer_init r, distance_metric = metric, surf = sf, n2v = tbl,
      outside_node_margin = mg \<rparr>"
  have init: "VoxelSelector_init rt (FloatRadius r) sf tbl metric mg = Inr sel"
    by (simp add: VoxelSelector_init_def sel_def)
  have opt: "optimizer sel = RadiusOptimizer_init r" by (simp add: sel_def)
  have start: "fst (get_start (optimizer sel)) = r"
    by (simp add: opt get_start_def RadiusOptimizer_init_def)
  have calls: "\<forall>cs opt'. run_calls cs (optimizer sel) = Inr opt' \<longrightarrow> fst (get_start opt') = r"
  proof (intro allI impI)
    fix cs opt' assume "run_calls cs (optimizer sel) = Inr opt'"
    from run_calls_initradius[OF this] show "fst (get_start opt') = r"
      by (simp add: opt get_start_def RadiusOptimizer_init_def)
  qed
  from init start calls
  show "\<exists>sel. VoxelSelector_init rt (FloatRadius r) sf tbl metric mg = Inr sel \<and>
      fst (get_start (optimizer sel)) = r \<and>
      (\<forall>cs opt'. run_calls cs (optimizer sel) = Inr opt' \<longrightarrow> fst (get_start opt') = r)"
    by (intro exI[of _ sel] conjI)
qed

lemma round64_examples:
  "round64 (1 / 1000) = 1152921504606847 / 1152921504606846976"
  "round64 (1152921504606847 / 1152921504606846976) = 1152921504606847 / 1152921504606846976"
  "round64 (1152921504606847 / 1152921504606846976 * (3 / 2)) =
     3458764513820541 / 2305843009213693952"
  "round64 (3458764513820541 / 2305843009213693952 * (3 / 2)) =
     1297036692682703 / 576460752303423488"
  "round64 (1297036692682703 / 576460752303423488 * (3 / 2)) =
     3891110078048109 / 1152921504606846976"
  "round64 (27 / 8000) = 7782220156096217 / 2305843009213693952"
  "round64 1 = 1" "round64 (3 / 2) = 3 / 2"
  "round64 (1152921504606847 / 1152921504606846976 + 3 / 2) =
     3379951520341557 / 2251799813685248"
proof -
  show "round64 (1 / 1000) = 1152921504606847 / 1152921504606846976"
    by (subst round64_eval[of "- 10"]) (simp_all add: round_eval_defs)
  show "round64 (1152921504606847 / 1152921504606846976) =
      1152921504606847 / 1152921504606846976"
    by (subst round64_eval[of "- 10"]) (simp_all add: round_eval_defs)
  show "round64 (1152921504606847 / 1152921504606846976 * (3 / 2)) =
     3458764513820541 / 2305843009213693952"
    by (subst round64_eval[of "- 10"]) (simp_all add: round_eval_defs)
  show "round64 (3458764513820541 / 2305843009213693952 * (3 / 2)) =
     1297036692682703 / 576460752303423488"
    by (subst round64_eval[of "- 9"]) (simp_all add: round_eval_defs)
  show "round64 (1297036692682703 / 576460752303423488 * (3 / 2)) =
     3891110078048109 / 1152921504606846976"
    by (subst round64_eval[of "- 9"]) (simp_all add: round_eval_defs)
  show "round64 (27 / 8000) = 7782220156096217 / 2305843009213693952"
    by (subst round64_eval[of "- 9"]) (simp_all add: round_eval_defs)
  show "round64 1 = 1" by (subst round64_eval[of 0]) (simp_all add: round_eval_defs)
  show "round64 (3 / 2) = 3 / 2" by (subst round64_eval[of 0]) (simp_all add: round_eval_defs)
  show "round64 (1152921504606847 / 1152921504606846976 + 3 / 2) =
     3379951520341557 / 2251799813685248"
    by (subst round64_eval[of 0]) (simp_all add: round_eval_defs)
qed

lemma init_radius_0: "init_radius rt_example 0 = 1152921504606847 / 1152921504606846976"
proof -
  have "c_pow rt_example (float_of_int 0) 0.5 = 0"
    by (simp add: rt_example_def cr_pow_def float_of_int_def round64_0)
  then have "init_radius rt_example 0 = round64 (round64 (1 / 1000) + round64 0)"
    by (simp add: init_radius_def fadd_def fmul_def)
  then show ?thesis by (simp only: round64_0 round64_examples add_0_right)
qed

lemma init_radius_1: "init_radius rt_example 1 = 3379951520341557 / 2251799813685248"
proof -
  have "c_pow rt_example (float_of_int 1) 0.5 = 1"
    by (simp add: rt_example_def cr_pow_def float_of_int_def round64_examples)
  then have "init_radius rt_example 1 = round64 (round64 (1 / 1000) + round64 (3 / 2))"
    by (simp add: init_radius_def fadd_def fmul_def)
  then show ?thesis by (simp only: round64_examples)
qed

lemma three_steps:
  "((\<lambda>x. fmul x 1.5) ^^ 3) (1152921504606847 / 1152921504606846976) =
     3891110078048109 / 1152921504606846976"
proof -
  have "((\<lambda>x. fmul x 1.5) ^^ 3) (1152921504606847 / 1152921504606846976) =
        round64 (round64 (round64 (1152921504606847 / 1152921504606846976 * (3 / 2)) * (3 / 2))
                 * (3 / 2))"
    by (simp add: numeral_3_eq_3 fmul_def del: div_mult_self1 div_mult_self2)
  then show ?thesis by (simp only: round64_examples)
qed

text \<open>
  Claim C10 as stated fails at the count \<open>0\<close> and \<open>k = 3\<close>: the start radius is the
  float \<open>.001\<close> and the third radius is \<open>3891110078048109 / 2 ^ 60\<close>, which is neither
  \<open>0.001 * 1.5 ^ 3\<close> nor the float nearest to it.
\<close>

theorem trial_radius_counterexample:
  "VoxelSelector_init rt_example (IntRadius 0) (surf_two_nodes 4) tbl_node1 ''dijkstra''
     MarginNone = Inr sel_count0 \<and>
   fst (get_start (optimizer sel_count0)) = 1152921504606847 / 1152921504606846976 \<and>
   map_sum id fst (get_next_times 3 (get_start (optimizer sel_count0))) =
     Inr (3891110078048109 / 1152921504606846976) \<and>
   (3891110078048109 / 1152921504606846976 :: real) \<noteq> (0.001 + 1.5 * sqrt 0) * 1.5 ^ 3 \<and>
   (3891110078048109 / 1152921504606846976 :: real) \<noteq>
     round64 ((0.001 + 1.5 * sqrt 0) * 1.5 ^ 3)"
proof -
  have i: "VoxelSelector_init rt_example (IntRadius 0) (surf_two_nodes 4) tbl_node1 ''dijkstra''
     MarginNone = Inr sel_count0"
  proof -
    have "VoxelSelector_init rt_example (IntRadius 0) (surf_two_nodes 4) tbl_node1 ''dijkstra''
        MarginNone =
      Inr \<lparr> targetradius = Count 0, initradius_mm = init_radius rt_example 0,
            optimizer = RadiusOptimizer_init (init_radius rt_example 0),
            distance_metric = ''dijkstra'', surf = surf_two_nodes 4, n2v = tbl_node1,
            outside_node_margin = MarginNone \<rparr>"
      by (simp add: VoxelSelector_init_def sys_maxint_def init_radius_def)
    then show ?thesis unfolding init_radius_0 sel_count0_def .
  qed
  have s: "get_start (optimizer sel_count0) =
      (1152921504606847 / 1152921504606846976, snd (get_start (optimizer sel_count0)))"
    by (simp add: sel_count0_def get_start_def RadiusOptimizer_init_def)
  have st: "curradius (snd (get_start (optimizer sel_count0))) =
              Some (1152921504606847 / 1152921504606846976)"
    "count (snd (get_start (optimizer sel_count0))) = Some 0"
    "initmult (snd (get_start (optimizer sel_count0))) = 1.5"
    by (simp_all add: sel_count0_def get_start_def RadiusOptimizer_init_def)
  from get_next_times_radius[OF st(1,2), of 3] obtain opt' where
    "get_next_times 3 (get_start (optimizer sel_count0)) =
       Inr (3891110078048109 / 1152921504606846976, opt')"
    unfolding st(3) three_steps using s by auto
  then have n: "map_sum id fst (get_next_times 3 (get_start (optimizer sel_count0))) =
     Inr (3891110078048109 / 1152921504606846976)" by simp
  have f: "(0.001 + 1.5 * sqrt 0) * 1.5 ^ 3 = (27 / 8000 :: real)"
    by (simp add: power3_eq_cube)
  have 1: "(3891110078048109 / 1152921504606846976 :: real) \<noteq> 27 / 8000" by simp
  have 2: "(3891110078048109 / 1152921504606846976 :: real) \<noteq> round64 (27 / 8000)"
    unfolding round64_examples by simp
  have s1: "fst (get_start (optimizer sel_count0)) = 1152921504606847 / 1152921504606846976"
    by (simp add: sel_count0_def get_start_def RadiusOptimizer_init_def)
  from i s1 n 1 2 show ?thesis unfolding f by (intro conjI)
qed

text \<open>Claim C10, as amended, at the count \<open>0\<close> and \<open>k = 3\<close>.\<close>

theorem radius_optimizer_trial_radii_witness:
  "(0::int) \<le> 0 \<and> 0 \<le> sys_maxint \<and> pow2 (- 1022) \<le> init_radius rt_example 0 \<and>
   init_radius rt_example 0 * 1.6 ^ 3 \<le> 2 ^ 1023 \<and>
   \<bar>((\<lambda>x. fmul x 1.5) ^^ 3) (init_radius rt_example 0) - init_radius rt_example 0 * 1.5 ^ 3\<bar> \<le>
     ((1 + 1 / 2 ^ 53) ^ 3 - 1) * (init_radius rt_example 0 * 1.5 ^ 3)"
proof -
  have h1: "(0::int) \<le> 0 \<and> 0 \<le> sys_maxint" by (simp add: sys_maxint_def)
  have h2: "pow2 (- 1022) \<le> init_radius rt_example 0"
    unfolding init_radius_0 by (simp add: pow2_def)
  have h3: "init_radius rt_example 0 * 1.6 ^ 3 \<le> 2 ^ 1023"
    unfolding init_radius_0 by (simp add: power3_eq_cube)
  from radius_optimizer_trial_radii[of 0 rt_example "surf_two_nodes 4" tbl_node1
      "''dijkstra''" MarginNone 0] h1
  have "\<forall>k. pow2 (- 1022) \<le> init_radius rt_example 0 \<and>
            init_radius rt_example 0 * 1.6 ^ k \<le> 2 ^ 1023 \<longrightarrow>
          \<bar>((\<lambda>x. fmul x 1.5) ^^ k) (init_radius rt_example 0) -
            init_radius rt_example 0 * 1.5 ^ k\<bar> \<le>
            ((1 + 1 / 2 ^ 53) ^ k - 1) * (init_radius rt_example 0 * 1.5 ^ k)"
    by blast
  with h2 h3 have "\<bar>((\<lambda>x. fmul x 1.5) ^^ 3) (init_radius rt_example 0) -
            init_radius rt_example 0 * 1.5 ^ 3\<bar> \<le>
            ((1 + 1 / 2 ^ 53) ^ 3 - 1) * (init_radius rt_example 0 * 1.5 ^ 3)"
    by blast
  with h1 h2 h3 show ?thesis by blast
qed

section \<open>Properties of \<open>disc_voxel_attributes\<close>\<close>

lemma funpow_fmul_shift:
  "((\<lambda>x. fmul x m) ^^ k) (fmul r m) = ((\<lambda>x. fmul x m) ^^ Suc k) r"
  using funpow_swap1[of "\<lambda>x. fmul x m" k r] by simp

lemma growth_loop_fail:
  assumes "curradius opt = Some r" "count opt = Some n" "initmult opt = m"
    and "\<forall>k<length iters. trial rt sel src (((\<lambda>x. fmul x m) ^^ k) r) = None"
    and "iters \<noteq> []"
  shows "\<exists>opt'. growth_loop rt sel src iters r opt st = Inr ((last iters, None), opt')"
  using assms
proof (induction iters arbitrary: r opt n st)
  case Nil
  then show ?case by simp
next
  case (Cons i iters)
  from Cons.prems(4) have "trial rt sel src (((\<lambda>x. fmul x m) ^^ 0) r) = None" by blast
  then have t0: "trial rt sel src r = None" by simp
  from get_next_started[OF Cons.prems(1,2)] Cons.prems(3) obtain opt1 where
    gn: "get_next opt = Inr (fmul r m, opt1)" and o1: "curradius opt1 = Some (fmul r m)"
    "count opt1 = Some (n + 1)" "initmult opt1 = m" by auto
  have step: "growth_loop rt sel src (i # iters) r opt st =
              growth_loop rt sel src iters (fmul r m) opt1 (i, None)"
    by (simp add: t0 gn)
  show ?case
  proof (cases "iters = []")
    case True
    then show ?thesis unfolding step by simp
  next
    case False
    have "\<forall>k<length iters. trial rt sel src (((\<lambda>x. fmul x m) ^^ k) (fmul r m)) = None"
    proof (intro allI impI)
      fix k assume "k < length iters"
      then have "Suc k < length (i # iters)" by simp
      with Cons.prems(4) have "trial rt sel src (((\<lambda>x. fmul x m) ^^ Suc k) r) = None" by blast
      then show "trial rt sel src (((\<lambda>x. fmul x m) ^^ k) (fmul r m)) = None"
        by (simp only: funpow_fmul_shift)
    qed
    from Cons.IH[OF o1 this False, of "(i, None)"] False show ?thesis unfolding step by simp
  qed
qed

lemma growth_loop_success:
  assumes "curradius opt = Some r" "count opt = Some n" "initmult opt = m"
    and "k < length iters"
    and "\<forall>j<k. trial rt sel src (((\<lambda>x. fmul x m) ^^ j) r) = None"
    and "trial rt sel src (((\<lambda>x. fmul x m) ^^ k) r) = Some va"
  shows "\<exists>opt'. growth_loop rt sel src iters r opt st = Inr ((iters ! k, Some va), opt')"
  using assms
proof (induction iters arbitrary: r opt n st k)
  case Nil
  then show ?case by simp
next
  case (Cons i iters)
  show ?case
  proof (cases k)
    case 0
    with Cons.prems(6) show ?thesis by simp
  next
    case (Suc k')
    with Cons.prems(5) have "trial rt sel src (((\<lambda>x. fmul x m) ^^ 0) r) = None" by blast
    then have t0: "trial rt sel src r = None" by simp
    from get_next_started[OF Cons.prems(1,2)] Cons.prems(3) obtain opt1 where
      gn: "get_next opt = Inr (fmul r m, opt1)" and o1: "curradius opt1 = Some (fmul r m)"
      "count opt1 = Some (n + 1)" "initmult opt1 = m" by auto
    have step: "growth_loop rt sel src (i # iters) r opt st =
                growth_loop rt sel src iters (fmul r m) opt1 (i, None)"
      by (simp add: t0 gn)
    have k': "k' < length iters" using Cons.prems(4) Suc by simp
    have none: "\<forall>j<k'. trial rt sel src (((\<lambda>x. fmul x m) ^^ j) (fmul r m)) = None"
    proof (intro allI impI)
      fix j assume "j < k'"
      then have "Suc j < k" using Suc by simp
      with Cons.prems(5) have "trial rt sel src (((\<lambda>x. fmul x m) ^^ Suc j) r) = None" by blast
      then show "trial rt sel src (((\<lambda>x. fmul x m) ^^ j) (fmul r m)) = None"
        by (simp only: funpow_fmul_shift)
    qed
    have some: "trial rt sel src (((\<lambda>x. fmul x m) ^^ k') (fmul r m)) = Some va"
      using Cons.prems(6) unfolding Suc by (simp only: funpow_fmul_shift)
    from Cons.IH[OF o1 k' none some, of "(i, None)"] Suc show ?thesis unfolding step by simp
  qed
qed

lemma get_start_started:
  "\<exists>opt. get_start (optimizer sel) = (initradius (optimizer sel), opt) \<and>
         curradius opt = Some (initradius (optimizer sel)) \<and> count opt = Some 0 \<and>
         initmult opt = initmult (optimizer sel)"
  by (simp add: get_start_def)

lemma upt_maxiter: "length [0..<maxiter] = 100" "[0..<maxiter] \<noteq> []" "last [0..<maxiter] = 99"
  "k < maxiter \<Longrightarrow> [0..<maxiter] ! k = k"
  by (simp_all add: maxiter_def)

lemma grow_and_select_exhausted:
  assumes "\<forall>k<maxiter. trial rt sel src
              (((\<lambda>x. fmul x (initmult (optimizer sel))) ^^ k) (initradius (optimizer sel))) = None"
  shows "grow_and_select rt sel src = Inl (TypeError ''str object is not callable'')"
proof -
  from get_start_started[of sel] obtain opt where
    gs: "get_start (optimizer sel) = (initradius (optimizer sel), opt)"
    and o: "curradius opt = Some (initradius (optimizer sel))" "count opt = Some 0"
    "initmult opt = initmult (optimizer sel)" by blast
  have none: "\<forall>k<length [0..<maxiter]. trial rt sel src
              (((\<lambda>x. fmul x (initmult (optimizer sel))) ^^ k) (initradius (optimizer sel))) = None"
    using assms by simp
  from growth_loop_fail[OF o none upt_maxiter(2), of "(0, None)"] obtain opt' where
    "growth_loop rt sel src [0..<maxiter] (initradius (optimizer sel)) opt (0, None) =
       Inr ((last [0..<maxiter], None), opt')" by blast
  then show ?thesis unfolding grow_and_select_def gs
    by (simp add: upt_maxiter(3)) (simp add: maxiter_def)
qed

lemma grow_and_select_found:
  assumes "k < maxiter"
    and "\<forall>j<k. trial rt sel src
              (((\<lambda>x. fmul x (initmult (optimizer sel))) ^^ j) (initradius (optimizer sel))) = None"
    and "trial rt sel src
              (((\<lambda>x. fmul x (initmult (optimizer sel))) ^^ k) (initradius (optimizer sel))) = Some va"
  shows "\<exists>opt'. grow_and_select rt sel src =
           (if k + 1 \<ge> maxiter then Inl (TypeError ''str object is not callable'')
            else if center_distances va = [] then Inl (IndexError ''index out of bounds'')
            else Inr (Attrs va, sel\<lparr> optimizer := opt' \<rparr>))"
proof -
  from get_start_started[of sel] obtain opt where
    gs: "get_start (optimizer sel) = (initradius (optimizer sel), opt)"
    and o: "curradius opt = Some (initradius (optimizer sel))" "count opt = Some 0"
    "initmult opt = initmult (optimizer sel)" by blast
  have k: "k < length [0..<maxiter]" using assms(1) by simp
  from growth_loop_success[OF o k assms(2,3), of "(0, None)"] obtain opt' where
    "growth_loop rt sel src [0..<maxiter] (initradius (optimizer sel)) opt (0, None) =
       Inr (([0..<maxiter] ! k, Some va), opt')" by blast
  then have "grow_and_select rt sel src =
           (if k + 1 \<ge> maxiter then Inl (TypeError ''str object is not callable'')
            else if center_distances va = [] then Inl (IndexError ''index out of bounds'')
            else Inr (Attrs va, sel\<lparr> optimizer := opt' \<rparr>))"
    unfolding grow_and_select_def gs using assms(1)
    by (simp add: upt_maxiter(4) set_final_def)
  then show ?thesis by blast
qed

lemma grow_and_select_not_empty_list:
  "grow_and_select rt sel src = Inr (a, sel') \<Longrightarrow> a \<noteq> EmptyList"
  unfolding grow_and_select_def
  by (auto split: prod.splits sum.splits option.splits if_splits)

lemmas eval_defs = trial_def nodes2voxel_attributes_def collect_def collect_node_def
  iteritems_def unpack_dp_def tbl_node1_def surf_two_nodes_def select_approx_def
  find_cut_def truncate_to_def

text \<open>
  Claim C8. A centre inside the volume goes on to the selection. For a centre that is
  not a key of the table, or whose entry is \<open>None\<close>: with the margin \<open>None\<close> the result
  is \<open>[]\<close> and the selector is as before (the optimizer is not started); with the margin
  \<open>True\<close> the selection runs as for a centre inside; with a finite margin \<open>m\<close> the
  selection runs when \<open>dijkstra_distance\<close> lists another node that has a dict in the
  table at a distance of at most \<open>m\<close>, and the result is \<open>[]\<close> otherwise. The selection
  itself never returns \<open>[]\<close>.
\<close>

theorem outside_node_margin_policy:
  "(node_in_vol (n2v sel) src \<longrightarrow>
      disc_voxel_attributes rt sel src = grow_and_select rt sel src) \<and>
   (\<not> node_in_vol (n2v sel) src \<longrightarrow>
      (outside_node_margin sel = MarginNone \<longrightarrow>
         disc_voxel_attributes rt sel src = Inr (EmptyList, sel)) \<and>
      (outside_node_margin sel = MarginTrue \<longrightarrow>
         disc_voxel_attributes rt sel src = grow_and_select rt sel src) \<and>
      (\<forall>m. outside_node_margin sel = MarginFloat m \<longrightarrow>
         disc_voxel_attributes rt sel src =
           (if \<exists>(nd, d) \<in> set (dijkstra_distance (surf sel) src m).
                 nd \<noteq> src \<and> node_in_vol (n2v sel) nd \<and> d \<le> m
            then grow_and_select rt sel src
            else Inr (EmptyList, sel)))) \<and>
   (\<forall>a sel'. grow_and_select rt sel src = Inr (a, sel') \<longrightarrow> a \<noteq> EmptyList)"
proof (intro conjI impI allI)
  assume "node_in_vol (n2v sel) src"
  then show "disc_voxel_attributes rt sel src = grow_and_select rt sel src"
    by (simp add: disc_voxel_attributes_def skip_node_def)
next
  assume "\<not> node_in_vol (n2v sel) src" "outside_node_margin sel = MarginNone"
  then show "disc_voxel_attributes rt sel src = Inr (EmptyList, sel)"
    by (simp add: disc_voxel_attributes_def skip_node_def)
next
  assume "\<not> node_in_vol (n2v sel) src" "outside_node_margin sel = MarginTrue"
  then show "disc_voxel_attributes rt sel src = grow_and_select rt sel src"
    by (simp add: disc_voxel_attributes_def skip_node_def)
next
  fix m
  assume out: "\<not> node_in_vol (n2v sel) src" and mg: "outside_node_margin sel = MarginFloat m"
  have "(\<exists>(nd, d) \<in> set (dijkstra_distance (surf sel) src m).
           nd \<noteq> src \<and> node_in_vol (n2v sel) nd \<and> d \<le> m) =
        (\<exists>(nd, d) \<in> set (dijkstra_distance (surf sel) src m).
           node_in_vol (n2v sel) nd \<and> d \<le> m)"
    using out by auto
  then show "disc_voxel_attributes rt sel src =
           (if \<exists>(nd, d) \<in> set (dijkstra_distance (surf sel) src m).
                 nd \<noteq> src \<and> node_in_vol (n2v sel) nd \<and> d \<le> m
            then grow_and_select rt sel src
            else Inr (EmptyList, sel))"
    using out mg by (simp add: disc_voxel_attributes_def skip_node_def list_ex_iff)
next
  fix a sel'
  assume "grow_and_select rt sel src = Inr (a, sel')"
  then show "a \<noteq> EmptyList" by (rule grow_and_select_not_empty_list)
qed

text \<open>Claim C8 for the centre \<open>0\<close> with the margin \<open>5\<close> and node \<open>1\<close> at distance \<open>4\<close>.\<close>

theorem outside_node_margin_policy_witness:
  "VoxelSelector_init rt_example (FloatRadius 2) (surf_two_nodes 4) tbl_node1 ''dijkstra''
     (MarginFloat 5) = Inr sel_margin5 \<and>
   \<not> node_in_vol (n2v sel_margin5) 0 \<and>
   outside_node_margin sel_margin5 = MarginFloat 5 \<and>
   (1, 4) \<in> set (dijkstra_distance (surf sel_margin5) 0 5) \<and>
   node_in_vol (n2v sel_margin5) 1 \<and>
   disc_voxel_attributes rt_example sel_margin5 0 = grow_and_select rt_example sel_margin5 0 \<and>
   disc_voxel_attributes rt_example sel_margin5 0 \<noteq> Inr (EmptyList, sel_margin5)"
proof -
  have i: "VoxelSelector_init rt_example (FloatRadius 2) (surf_two_nodes 4) tbl_node1
             ''dijkstra'' (MarginFloat 5) = Inr sel_margin5"
    by (simp add: VoxelSelector_init_def sel_margin5_def)
  have h1: "\<not> node_in_vol (n2v sel_margin5) 0"
    by (simp add: sel_margin5_def node_in_vol_def tbl_node1_def)
  have h2: "outside_node_margin sel_margin5 = MarginFloat 5" by (simp add: sel_margin5_def)
  have h3: "(1, 4) \<in> set (dijkstra_distance (surf sel_margin5) 0 5)"
    by (simp add: sel_margin5_def surf_two_nodes_def)
  have h4: "node_in_vol (n2v sel_margin5) 1"
    by (simp add: sel_margin5_def node_in_vol_def tbl_node1_def)
  from h3 h4 have ex: "\<exists>(nd, d) \<in> set (dijkstra_distance (surf sel_margin5) 0 5).
                 nd \<noteq> 0 \<and> node_in_vol (n2v sel_margin5) nd \<and> d \<le> 5"
    by (intro bexI[of _ "(1, 4)"]) simp_all
  from outside_node_margin_policy[of sel_margin5 0 rt_example] h1 h2 ex
  have d: "disc_voxel_attributes rt_example sel_margin5 0 =
           grow_and_select rt_example sel_margin5 0"
    and ne: "\<forall>a sel'. grow_and_select rt_example sel_margin5 0 = Inr (a, sel') \<longrightarrow>
               a \<noteq> EmptyList"
    by simp_all
  from d ne have "disc_voxel_attributes rt_example sel_margin5 0 \<noteq> Inr (EmptyList, sel_margin5)"
    by auto
  with i h1 h2 h3 h4 d show ?thesis by simp
qed

text \<open>
  Claim C1 on the code. With a count of \<open>5\<close> and a single voxel in the volume, every
  trial of the centre \<open>1\<close> finds too few voxels, the loop runs its hundred passes, and
  \<open>disc_voxel_attributes\<close> raises \<open>TypeError\<close> from the call of the message string, not
  the \<open>ValueError\<close> with the count and the node.
\<close>

theorem exhaustion_raises_TypeError:
  "VoxelSelector_init rt (IntRadius 5) (surf_two_nodes 4) tbl_node1 ''dijkstra'' MarginNone
     = Inr (sel_count5 rt) \<and>
   (\<forall>r. trial rt (sel_count5 rt) 1 r = None) \<and>
   disc_voxel_attributes rt (sel_count5 rt) 1 = Inl (TypeError ''str object is not callable'')"
proof -
  have i: "VoxelSelector_init rt (IntRadius 5) (surf_two_nodes 4) tbl_node1 ''dijkstra''
     MarginNone = Inr (sel_count5 rt)"
    by (simp add: VoxelSelector_init_def sel_count5_def init_radius_def sys_maxint_def)
  have t: "\<forall>r. trial rt (sel_count5 rt) 1 r = None"
    by (simp add: sel_count5_def eval_defs)
  have inside: "node_in_vol (n2v (sel_count5 rt)) 1"
    by (simp add: sel_count5_def node_in_vol_def tbl_node1_def)
  from t have "grow_and_select rt (sel_count5 rt) 1 =
      Inl (TypeError ''str object is not callable'')"
    by (intro grow_and_select_exhausted) simp
  with inside have "disc_voxel_attributes rt (sel_count5 rt) 1 =
      Inl (TypeError ''str object is not callable'')"
    by (simp add: disc_voxel_attributes_def skip_node_def)
  with i t show ?thesis by simp
qed

text \<open>
  Claim C3 on the code. With the metric radius \<open>2\<close> and the margin \<open>True\<close>, the centre \<open>0\<close>
  is not skipped, no node within the radius encloses a voxel, and
  \<open>disc_voxel_attributes\<close> raises \<open>IndexError\<close> instead of returning the empty set.
\<close>

theorem empty_neighbourhood_raises_IndexError:
  "VoxelSelector_init rt (FloatRadius 2) (surf_two_nodes 4) tbl_node1 ''dijkstra'' MarginTrue
     = Inr sel_radius2 \<and>
   fixedradius sel_radius2 \<and> \<not> skip_node sel_radius2 0 \<and>
   nodes2voxel_attributes rt
      (circlearound_n2d (surf sel_radius2) 0 2 (distance_metric sel_radius2)) (n2v sel_radius2)
     = \<lparr> linear_voxel_indices = [], center_distances = [], grey_matter_position = [] \<rparr> \<and>
   disc_voxel_attributes rt sel_radius2 0 = Inl (IndexError ''index out of bounds'')"
proof -
  have i: "VoxelSelector_init rt (FloatRadius 2) (surf_two_nodes 4) tbl_node1 ''dijkstra''
     MarginTrue = Inr sel_radius2"
    by (simp add: VoxelSelector_init_def sel_radius2_def)
  have f: "fixedradius sel_radius2" by (simp add: fixedradius_def sel_radius2_def)
  have s: "\<not> skip_node sel_radius2 0" by (simp add: skip_node_def sel_radius2_def)
  have n: "nodes2voxel_attributes rt
      (circlearound_n2d (surf sel_radius2) 0 2 (distance_metric sel_radius2)) (n2v sel_radius2)
     = \<lparr> linear_voxel_indices = [], center_distances = [], grey_matter_position = [] \<rparr>"
    by (simp add: sel_radius2_def eval_defs)
  have t: "trial rt sel_radius2 0
             (((\<lambda>x. fmul x (initmult (optimizer sel_radius2))) ^^ 0)
                (initradius (optimizer sel_radius2))) =
           Some \<lparr> linear_voxel_indices = [], center_distances = [], grey_matter_position = [] \<rparr>"
    by (simp add: sel_radius2_def eval_defs RadiusOptimizer_init_def)
  have "\<forall>j<(0::nat). trial rt sel_radius2 0
             (((\<lambda>x. fmul x (initmult (optimizer sel_radius2))) ^^ j)
                (initradius (optimizer sel_radius2))) = None" by simp
  from grow_and_select_found[OF _ this t]
  have "grow_and_select rt sel_radius2 0 = Inl (IndexError ''index out of bounds'')"
    by (simp add: maxiter_def)
  with s have "disc_voxel_attributes rt sel_radius2 0 = Inl (IndexError ''index out of bounds'')"
    by (simp add: disc_voxel_attributes_def)
  with i f s n show ?thesis by simp
qed

lemma four_voxels_candidates:
  assumes "around = (0, 0) # rest" and "rest = [] \<or> rest = [(1, d1)]"
  shows "{vx. candidates around tbl_four_voxels vx \<noteq> []} = {7, 8, 9, 10}"
    and "vx \<in> {7, 8, 9, 10} \<Longrightarrow> fst (Min (set (candidates around tbl_four_voxels vx))) = 0"
proof -
  have c: "candidates around tbl_four_voxels v =
      map (\<lambda>(v', p). (0, p)) (filter (\<lambda>(v', p). v' = v)
        [(7, 0.125), (8, 0.375), (9, 0.625), (10, 0.875)])" for v
    using assms by (auto simp add: candidates_def tbl_four_voxels_def)
  show "{vx. candidates around tbl_four_voxels vx \<noteq> []} = {7, 8, 9, 10}"
    unfolding c by auto
  assume "vx \<in> {7, 8, 9, 10}"
  then show "fst (Min (set (candidates around tbl_four_voxels vx))) = 0"
    unfolding c by auto
qed

lemma four_voxels_distances:
  assumes "around = (0, 0) # rest" and "rest = [] \<or> rest = [(1, d1)]"
  shows "center_distances (nodes2voxel_attributes rt around tbl_four_voxels) = [0, 0, 0, 0]"
proof -
  define vdp where
    "vdp = sort_key (\<lambda>(vx, d, p). d)
             (map unpack_dp (iteritems (dict_order rt) (collect around tbl_four_voxels)))"
  note facts = vdp_facts[OF vdp_def]
  note cands = four_voxels_candidates[OF assms]
  have keys: "set (map fst vdp) = {7, 8, 9, 10}" using facts(2) cands(1) by simp
  have "length vdp = length (map fst vdp)" by simp
  also have "\<dots> = card (set (map fst vdp))" using facts(1) by (simp only: distinct_card)
  also have "\<dots> = 4" unfolding keys by simp
  finally have len: "length vdp = 4" .
  have zero: "fst (snd x) = 0" if "x \<in> set vdp" for x
  proof -
    from that have "fst x \<in> set (map fst vdp)" by simp
    then have "fst x \<in> {7, 8, 9, 10}" unfolding keys .
    from cands(2)[OF this] facts(3)[OF that] show ?thesis by simp
  qed
  have p2: "(\<lambda>(vx, d, p). round32 d) = (\<lambda>x :: voxel \<times> real \<times> real. round32 (fst (snd x)))"
    by (simp add: fun_eq_iff)
  have "center_distances (nodes2voxel_attributes rt around tbl_four_voxels) =
        map (\<lambda>x. round32 (fst (snd x))) vdp"
    by (simp add: nodes2voxel_attributes_def Let_def vdp_def[symmetric] p2)
  also have "\<dots> = map (\<lambda>x. 0) vdp"
    by (rule map_cong) (simp_all add: zero round32_0)
  also have "\<dots> = replicate (length vdp) 0" by (simp add: map_replicate_const)
  also have "\<dots> = [0, 0, 0, 0]" unfolding len by (simp add: numeral_eq_Suc)
  finally show ?thesis .
qed

lemma select_one_of_four:
  assumes "center_distances vp = [0, 0, 0, 0]"
  shows "select_approx vp (Some 1) =
           Some \<lparr> linear_voxel_indices = [], center_distances = [], grey_matter_position = [] \<rparr>"
  using assms by (simp add: select_approx_def find_cut_def truncate_to_def)

text \<open>
  Claim C2 on the code. With a count of \<open>1\<close> and a centre that encloses four voxels, all
  at distance \<open>0\<close>, the quantile selection succeeds in the first pass of the loop: it
  returns a set, not \<open>None\<close>, cut at position \<open>0\<close> (the chunk of four is nearer to \<open>0\<close>
  than to \<open>4\<close> voxels from the count \<open>1\<close>). The loop stops there with \<open>iter = 0\<close>, and
  \<open>disc_voxel_attributes\<close> raises \<open>IndexError\<close> instead of returning that set.
\<close>

theorem successful_selection_raises_IndexError:
  "VoxelSelector_init rt (IntRadius 1) (surf_two_nodes 4) tbl_four_voxels ''dijkstra''
     MarginNone = Inr (sel_four_voxels rt) \<and>
   (\<forall>r. center_distances
          (nodes2voxel_attributes rt
             (circlearound_n2d (surf (sel_four_voxels rt)) 0 r ''dijkstra'')
             tbl_four_voxels) = [0, 0, 0, 0]) \<and>
   (\<forall>r. trial rt (sel_four_voxels rt) 0 r =
          Some \<lparr> linear_voxel_indices = [], center_distances = [],
                 grey_matter_position = [] \<rparr>) \<and>
   (\<exists>opt'. growth_loop rt (sel_four_voxels rt) 0 [0..<maxiter]
              (fst (get_start (optimizer (sel_four_voxels rt))))
              (snd (get_start (optimizer (sel_four_voxels rt)))) (0, None) =
            Inr ((0, Some \<lparr> linear_voxel_indices = [], center_distances = [],
                             grey_matter_position = [] \<rparr>), opt')) \<and>
   disc_voxel_attributes rt (sel_four_voxels rt) 0 = Inl (IndexError ''index out of bounds'')"
proof -
  let ?sel = "sel_four_voxels rt"
  let ?empty = "\<lparr> linear_voxel_indices = [], center_distances = [],
                   grey_matter_position = [] \<rparr>"
  have i: "VoxelSelector_init rt (IntRadius 1) (surf_two_nodes 4) tbl_four_voxels ''dijkstra''
     MarginNone = Inr ?sel"
    by (simp add: VoxelSelector_init_def sel_four_voxels_def init_radius_def sys_maxint_def)
  have d: "center_distances
          (nodes2voxel_attributes rt (circlearound_n2d (surf ?sel) 0 r ''dijkstra'')
             tbl_four_voxels) = [0, 0, 0, 0]" for r
    by (rule four_voxels_distances[of _ "if 4 \<le> r then [(1, 4)] else []" 4])
       (simp_all add: sel_four_voxels_def surf_two_nodes_def)
  have t: "trial rt ?sel 0 r = Some ?empty" for r
  proof -
    have "trial rt ?sel 0 r =
          select_approx (nodes2voxel_attributes rt
             (circlearound_n2d (surf ?sel) 0 r ''dijkstra'') tbl_four_voxels) (Some 1)"
      by (simp add: trial_def sel_four_voxels_def)
    also have "\<dots> = Some ?empty" by (rule select_one_of_four[OF d])
    finally show ?thesis .
  qed
  from get_start_started[of ?sel] obtain opt where
    gs: "get_start (optimizer ?sel) = (initradius (optimizer ?sel), opt)"
    and o: "curradius opt = Some (initradius (optimizer ?sel))" "count opt = Some 0"
    "initmult opt = initmult (optimizer ?sel)" by blast
  have k: "0 < length [0..<maxiter]" by (simp add: maxiter_def)
  have none: "\<forall>j<(0::nat). trial rt ?sel 0
      (((\<lambda>x. fmul x (initmult (optimizer ?sel))) ^^ j) (initradius (optimizer ?sel))) = None"
    by simp
  have some: "trial rt ?sel 0
      (((\<lambda>x. fmul x (initmult (optimizer ?sel))) ^^ 0) (initradius (optimizer ?sel))) =
        Some ?empty" by (rule t)
  from growth_loop_success[OF o k none some, of "(0, None)"]
  have loop: "\<exists>opt'. growth_loop rt ?sel 0 [0..<maxiter]
              (fst (get_start (optimizer ?sel))) (snd (get_start (optimizer ?sel))) (0, None) =
            Inr ((0, Some ?empty), opt')"
    unfolding gs by (simp add: upt_maxiter(4) maxiter_def)
  have m: "(0::nat) < maxiter" by (simp add: maxiter_def)
  from grow_and_select_found[OF m none some]
  have "grow_and_select rt ?sel 0 = Inl (IndexError ''index out of bounds'')"
    by (simp add: maxiter_def)
  moreover have "\<not> skip_node ?sel 0"
    by (simp add: skip_node_def sel_four_voxels_def node_in_vol_def tbl_four_voxels_def)
  ultimately have r: "disc_voxel_attributes rt ?sel 0 = Inl (IndexError ''index out of bounds'')"
    by (simp add: disc_voxel_attributes_def)
  from i d t loop r show ?thesis by (intro conjI allI)
qed

lemma one_plus_power_le:
  fixes u :: real
  assumes "0 \<le> u" and "2 * real k * u \<le> 1"
  shows "(1 + u) ^ k \<le> 1 + 2 * real k * u"
  using assms(2)
proof (induction k)
  case 0
  then show ?case by simp
next
  case (Suc k)
  from Suc.prems assms(1) have small: "2 * real k * u \<le> 1"
    by (simp add: algebra_simps)
  from Suc.IH[OF small] assms(1)
  have "(1 + u) ^ Suc k \<le> (1 + 2 * real k * u) * (1 + u)"
    by (simp add: mult_right_mono mult.commute)
  also have "\<dots> = 1 + 2 * real k * u + u + (2 * real k * u) * u" by (simp add: algebra_simps)
  also have "\<dots> \<le> 1 + 2 * real k * u + u + 1 * u"
    using small assms(1) by (intro add_left_mono mult_right_mono)
  also have "\<dots> = 1 + 2 * real (Suc k) * u" by (simp add: algebra_simps)
  finally show ?case .
qed

lemma far_radius_below: "(1 + 2 * 98 / 2 ^ 53) * ((3379951520341557 / 2251799813685248) * 1.5 ^ 98) < (3 * 10 ^ 17 :: real)"
  by (simp add: power_divide)

lemma far_radius_above: "(3 * 10 ^ 17 :: real) \<le> (1 - 2 * 99 / 2 ^ 53) * ((3379951520341557 / 2251799813685248) * 1.5 ^ 99)"
  by (simp add: power_divide)

lemma funpow_fmul_mono:
  assumes "pow2 (- 1022) \<le> r" and "j \<le> k"
  shows "((\<lambda>x. fmul x 1.5) ^^ j) r \<le> ((\<lambda>x. fmul x 1.5) ^^ k) r"
proof -
  from assms(2) obtain d where k: "k = d + j" by (metis le_add_diff_inverse2)
  from fmul_iter_bound[OF assms(1), of j]
  have "pow2 (- 1022) \<le> ((\<lambda>x. fmul x 1.5) ^^ j) r" using assms(1) by linarith
  from fmul_iter_bound[OF this, of d]
  have "((\<lambda>x. fmul x 1.5) ^^ j) r \<le> ((\<lambda>x. fmul x 1.5) ^^ d) (((\<lambda>x. fmul x 1.5) ^^ j) r)"
    by simp
  then show ?thesis unfolding k by (simp only: funpow_add o_apply)
qed

lemma abs_bound_split:
  fixes a b E :: real
  assumes "\<bar>a - b\<bar> \<le> (E - 1) * b"
  shows "a \<le> E * b" and "(2 - E) * b \<le> a"
proof -
  have "(E - 1) * b = E * b - b" by (simp add: algebra_simps)
  with assms have "\<bar>a - b\<bar> \<le> E * b - b" by simp
  then show "a \<le> E * b" by linarith
  have "(2 - E) * b = b - ((E - 1) * b)" by (simp add: algebra_simps)
  with assms show "(2 - E) * b \<le> a" by linarith
qed

lemma far_radii:
  defines "r0 \<equiv> 3379951520341557 / 2251799813685248 :: real"
  shows "((\<lambda>x. fmul x 1.5) ^^ 98) r0 < 3 * 10 ^ 17"
    and "3 * 10 ^ 17 \<le> ((\<lambda>x. fmul x 1.5) ^^ 99) r0"
    and "pow2 (- 1022) \<le> r0"
proof -
  show low: "pow2 (- 1022) \<le> r0" by (simp add: r0_def pow2_def)
  have u: "(0::real) \<le> 1 / 2 ^ 53" by simp
  have e98: "(1 + 1 / 2 ^ 53 :: real) ^ 98 \<le> 1 + 2 * 98 / 2 ^ 53"
    using one_plus_power_le[OF u, of 98] by simp
  have e99: "(1 + 1 / 2 ^ 53 :: real) ^ 99 \<le> 1 + 2 * 99 / 2 ^ 53"
    using one_plus_power_le[OF u, of 99] by simp
  have pos98: "0 \<le> r0 * 1.5 ^ 98" and pos99: "0 \<le> r0 * 1.5 ^ 99" by (simp_all add: r0_def)
  have "((\<lambda>x. fmul x 1.5) ^^ 98) r0 \<le> (1 + 1 / 2 ^ 53) ^ 98 * (r0 * 1.5 ^ 98)"
    by (rule abs_bound_split(1)[OF conjunct2[OF fmul_iter_bound[OF low, of 98]]])
  also have "\<dots> \<le> (1 + 2 * 98 / 2 ^ 53) * (r0 * 1.5 ^ 98)"
    by (rule mult_right_mono[OF e98 pos98])
  also have "\<dots> < 3 * 10 ^ 17" unfolding r0_def by (rule far_radius_below)
  finally show "((\<lambda>x. fmul x 1.5) ^^ 98) r0 < 3 * 10 ^ 17" .
  have "(3 * 10 ^ 17 :: real) \<le> (1 - 2 * 99 / 2 ^ 53) * (r0 * 1.5 ^ 99)"
    unfolding r0_def by (rule far_radius_above)
  also have "\<dots> \<le> (2 - (1 + 1 / 2 ^ 53) ^ 99) * (r0 * 1.5 ^ 99)"
    by (rule mult_right_mono[OF _ pos99]) (use e99 in linarith)
  also have "\<dots> \<le> ((\<lambda>x. fmul x 1.5) ^^ 99) r0"
    by (rule abs_bound_split(2)[OF conjunct2[OF fmul_iter_bound[OF low, of 99]]])
  finally show "3 * 10 ^ 17 \<le> ((\<lambda>x. fmul x 1.5) ^^ 99) r0" .
qed

lemma trial_far:
  "r < 3 * 10 ^ 17 \<Longrightarrow> trial rt sel_far 0 r = None"
  "3 * 10 ^ 17 \<le> r \<Longrightarrow> trial rt sel_far 0 r =
     Some \<lparr> linear_voxel_indices = [np_int32 rt 7],
            center_distances = [round32 (3 * 10 ^ 17)],
            grey_matter_position = [round32 0.5] \<rparr>"
  by (simp_all add: sel_far_def eval_defs)

text \<open>
  The test after the loop. With a count of \<open>1\<close>, the start radius of that count and
  the only voxel in a node at distance \<open>3 * 10 ^ 17\<close> from the centre \<open>0\<close>, the trial
  of the 99th pass (\<open>iter = 98\<close>) finds no voxel and that of the 100th pass
  (\<open>iter = 99\<close>) returns the voxel; the loop stops there by \<open>break\<close>, and
  \<open>iter + 1 >= maxiter\<close> holds as it does after a loop that ran out, so
  \<open>disc_voxel_attributes\<close> raises instead of returning the set.
\<close>

lemma success_at_last_iteration_raises:
  "VoxelSelector_init rt_example (IntRadius 1) (surf_two_nodes (3 * 10 ^ 17)) tbl_node1
     ''dijkstra'' MarginTrue = Inr sel_far \<and>
   trial rt_example sel_far 0
     (((\<lambda>x. fmul x (initmult (optimizer sel_far))) ^^ 98) (initradius (optimizer sel_far)))
     = None \<and>
   trial rt_example sel_far 0
     (((\<lambda>x. fmul x (initmult (optimizer sel_far))) ^^ 99) (initradius (optimizer sel_far)))
     = Some \<lparr> linear_voxel_indices = [7],
              center_distances = [round32 (3 * 10 ^ 17)],
              grey_matter_position = [1 / 2] \<rparr> \<and>
   disc_voxel_attributes rt_example sel_far 0 = Inl (TypeError ''str object is not callable'')"
proof -
  let ?r0 = "3379951520341557 / 2251799813685248 :: real"
  let ?it = "\<lambda>k. ((\<lambda>x. fmul x (initmult (optimizer sel_far))) ^^ k) (initradius (optimizer sel_far))"
  have it: "?it k = ((\<lambda>x. fmul x 1.5) ^^ k) ?r0" for k
    by (simp add: sel_far_def RadiusOptimizer_init_def)
  have i: "VoxelSelector_init rt_example (IntRadius 1) (surf_two_nodes (3 * 10 ^ 17)) tbl_node1
     ''dijkstra'' MarginTrue =
       Inr \<lparr> targetradius = Count 1, initradius_mm = init_radius rt_example 1,
             optimizer = RadiusOptimizer_init (init_radius rt_example 1),
             distance_metric = ''dijkstra'', surf = surf_two_nodes (3 * 10 ^ 17),
             n2v = tbl_node1, outside_node_margin = MarginTrue \<rparr>"
    by (simp add: VoxelSelector_init_def init_radius_def sys_maxint_def)
  have i': "VoxelSelector_init rt_example (IntRadius 1) (surf_two_nodes (3 * 10 ^ 17)) tbl_node1
     ''dijkstra'' MarginTrue = Inr sel_far"
    unfolding i init_radius_1 sel_far_def by (rule refl)
  have none: "\<forall>j<99. trial rt_example sel_far 0 (?it j) = None"
  proof (intro allI impI)
    fix j :: nat assume "j < 99"
    then have "j \<le> 98" by simp
    from funpow_fmul_mono[OF far_radii(3) this] far_radii(1)
    have "((\<lambda>x. fmul x 1.5) ^^ j) ?r0 < 3 * 10 ^ 17" by linarith
    then show "trial rt_example sel_far 0 (?it j) = None"
      unfolding it by (rule trial_far(1))
  qed
  then have t98: "trial rt_example sel_far 0 (?it 98) = None" by simp
  have s: "np_int32 rt_example 7 = 7" by (simp add: rt_example_def wrap32_def)
  have h: "round32 0.5 = 1 / 2" using round32_eval[of "- 1" "1 / 2"] by (simp add: round_eval_defs)
  have t99: "trial rt_example sel_far 0 (?it 99) =
      Some \<lparr> linear_voxel_indices = [7], center_distances = [round32 (3 * 10 ^ 17)],
             grey_matter_position = [1 / 2] \<rparr>"
    unfolding it using trial_far(2)[OF far_radii(2), of rt_example] by (simp only: s h)
  have m: "(99::nat) < maxiter" by (simp add: maxiter_def)
  from grow_and_select_found[OF m none t99]
  have "grow_and_select rt_example sel_far 0 = Inl (TypeError ''str object is not callable'')"
    by (simp add: maxiter_def)
  moreover have "\<not> skip_node sel_far 0" by (simp add: skip_node_def sel_far_def)
  ultimately have r: "disc_voxel_attributes rt_example sel_far 0 =
      Inl (TypeError ''str object is not callable'')"
    by (simp add: disc_voxel_attributes_def)
  from i' t98 t99 r show ?thesis by (intro conjI)
qed

section \<open>Properties of \<open>voxel_selection\<close>\<close>

lemma merge_results_Some: "merge_results (Some d) results \<noteq> None"
  by (induction results arbitrary: d) simp_all

lemma merge_results_nonempty: "results \<noteq> [] \<Longrightarrow> merge_results None results \<noteq> None"
  by (cases results) (simp_all add: merge_results_Some)

lemma run_blocks_length: "run_blocks rt sel blocks = Inr results \<Longrightarrow> length results = length blocks"
  by (induction blocks arbitrary: results) (auto split: sum.splits prod.splits)

lemma length_array_split: "length (array_split xs p) = p"
  by (simp add: array_split_def Let_def)

lemma voxel_selection_never_None:
  assumes "voxel_selection rt ext rad source_nodes metric nproc_arg mg = Inr (d, ws)"
  shows "d \<noteq> None \<and> ''No voxels associated with any of the nodes'' \<notin> set ws"
proof -
  have par: "\<And>sel xs p results. 1 < p \<Longrightarrow>
      run_blocks rt sel (array_split xs (nat p)) = Inr results \<Longrightarrow>
      merge_results None results \<noteq> None"
  proof -
    fix sel :: VoxelSelector and xs :: "(node \<times> node) list" and p :: int and results
    assume p: "1 < p" and r: "run_blocks rt sel (array_split xs (nat p)) = Inr results"
    from run_blocks_length[OF r] p have "results \<noteq> []" by (auto simp add: length_array_split)
    then show "merge_results None results \<noteq> None" by (rule merge_results_nonempty)
  qed
  from assms show ?thesis
    unfolding voxel_selection_def Let_def
    by (auto split: sum.splits option.splits if_splits prod.splits dest: par)
qed

text \<open>
  Claim C9 on the code. In a run with one worker in which every centre is skipped,
  \<open>voxel_selection\<close> returns the empty dictionary and issues no warning.
\<close>

theorem no_voxels_run_gives_no_warning:
  "voxel_selection rt ext_no_voxels (FloatRadius 2) None ''dijkstra'' (Some 1) MarginNone
     = Inr (Some [], [])"
  by (simp add: voxel_selection_def ext_no_voxels_def VoxelSelector_init_def
      disc_voxel_indices_and_attributes_def disc_voxel_attributes_def skip_node_def
      node_in_vol_def upt_rec)

end
